theory Spec2Isabelle
  imports Main "HOL-Library.Sublist" "HOL-Library.AList" "HOL-Library.Word"
begin

section \<open>Strings and paths\<close>

text \<open>
  File names, blob names, tags and keywords are \<open>string\<close>s. \<open>str.lower()\<close> is modelled on
  the ASCII letters \<open>A\<close> to \<open>Z\<close>; every other character is left as it is.
\<close>

definition lower_char :: "char \<Rightarrow> char" where
  "lower_char c =
     (case map_of (zip ''ABCDEFGHIJKLMNOPQRSTUVWXYZ'' ''abcdefghijklmnopqrstuvwxyz'') c of
        Some l \<Rightarrow> l
      | None \<Rightarrow> c)"

definition lower :: "string \<Rightarrow> string" where
  "lower s = map lower_char s"

text \<open>\<open>p.rfind(c)\<close>: the index of the last occurrence of \<open>c\<close> in \<open>p\<close>, or \<open>-1\<close>.\<close>

fun rfind :: "string \<Rightarrow> char \<Rightarrow> int" where
  "rfind [] c = - 1"
| "rfind (x # xs) c =
     (let r = rfind xs c in if 0 \<le> r then r + 1 else if x = c then 0 else - 1)"

text \<open>\<open>p[i:j]\<close> for indices \<open>0 \<le> i\<close>, \<open>0 \<le> j\<close>.\<close>

definition slice :: "string \<Rightarrow> int \<Rightarrow> int \<Rightarrow> string" where
  "slice p i j = take (nat j - nat i) (drop (nat i) p)"

text \<open>
  \<open>os.path.splitext\<close> of the POSIX path module: the extension starts at the last dot,
  provided that dot comes after the last slash and some character between the slash and
  the dot is not a dot (leading dots of a file name do not start an extension).
\<close>

definition splitext :: "string \<Rightarrow> string \<times> string" where
  "splitext p =
     (let sepIndex = rfind p CHR ''/'';
          dotIndex = rfind p CHR ''.''
      in if dotIndex > sepIndex \<and> (\<exists>c \<in> set (slice p (sepIndex + 1) dotIndex). c \<noteq> CHR ''.'')
         then (take (nat dotIndex) p, drop (nat dotIndex) p)
         else (p, []))"

text \<open>\<open>os.path.basename\<close> of the POSIX path module: \<open>p[p.rfind('/') + 1:]\<close>.\<close>

definition basename :: "string \<Rightarrow> string" where
  "basename p = drop (nat (rfind p CHR ''/'' + 1)) p"

text \<open>\<open>os.path.join(a, b)\<close> of the POSIX path module.\<close>

definition path_join :: "string \<Rightarrow> string \<Rightarrow> string" where
  "path_join a b =
     (if prefix ''/'' b then b
      else if a = [] \<or> suffix ''/'' a then a @ b
      else a @ ''/'' @ b)"

definition TREE_FOLDER :: string where
  "TREE_FOLDER = ''tree-pictures/''"

definition VIDEO_EXTENSIONS :: "string set" where
  "VIDEO_EXTENSIONS = {''.mp4'', ''.mov'', ''.avi'', ''.mkv'', ''.webm''}"

definition is_video :: "string \<Rightarrow> bool" where
  "is_video filename \<longleftrightarrow> lower (snd (splitext filename)) \<in> VIDEO_EXTENSIONS"

text \<open>\<open>name.startswith(TREE_FOLDER)\<close>.\<close>

definition in_tree_folder :: "string \<Rightarrow> bool" where
  "in_tree_folder name \<longleftrightarrow> prefix TREE_FOLDER name"

text \<open>
  The extension of a name, said without indices: \<open>e\<close> is the extension of \<open>name\<close> when
  \<open>name\<close> is a directory part \<open>d\<close> (empty or ending in a slash), then a part \<open>f\<close> of the
  last path component that holds a character other than a dot, then \<open>e\<close>, which is a dot
  followed by characters that are neither a dot nor a slash.
\<close>

definition is_extension_of :: "string \<Rightarrow> string \<Rightarrow> bool" where
  "is_extension_of e name \<longleftrightarrow>
     (\<exists>d f rest. name = d @ f @ e \<and> e = CHR ''.'' # rest
        \<and> CHR ''.'' \<notin> set rest \<and> CHR ''/'' \<notin> set rest
        \<and> (d = [] \<or> last d = CHR ''/'') \<and> CHR ''/'' \<notin> set f
        \<and> (\<exists>c \<in> set f. c \<noteq> CHR ''.''))"


section \<open>The world the scripts act on\<close>

text \<open>
  The blob container and the local file system are association lists from names to
  contents; the container's list is in listing order. What the scripts print is kept as a
  list of messages, one constructor for each \<open>print\<close> of the source.
\<close>

type_synonym bytes = "8 word list"

text \<open>What the vision service returns for one image: tag names, object labels, captions.\<close>

record analysis =
  tag_names :: "string list"
  object_properties :: "string list"
  caption_texts :: "string list"

datatype ext_call =
    ListBlobs
  | UploadBlob string
  | DeleteBlob string
  | DownloadBlob string
  | StartCopy string string
  | ListDir string
  | OpenRead string
  | OpenWrite string
  | Remove string
  | MakeDirs string

datatype error =
    ServiceError ext_call
  | ResourceNotFound string
  | FileNotFound string
  | IsADirectory string
  | NotADirectory string
  | FileExists string
  | VisionError

datatype msg =
    Uploading string
  | DeletingBlob string
  | ContainerCleaned
  | SkippingVideo string
  | NoTargetKeywords string
  | Moved string string
  | FoundFiles nat
  | Downloading string string
  | DownloadComplete
  | AnalyzingLocalImage string
  | FoundInTags string
  | FoundInObjects string
  | FoundInDescription string
  | DidNotFind string
  | ErrorAnalyzingLocalImage string error

text \<open>
  The surroundings of a run: the storage account and container of the configuration, which
  external calls raise (\<open>fails\<close>), what the vision service answers for an image (\<open>None\<close>
  when the call raises), and what \<open>os.listdir\<close> returns for a directory (\<open>None\<close> when
  there is no such directory).
\<close>

record env =
  account_name :: string
  BLOB_CONTAINER :: string
  fails :: "ext_call \<Rightarrow> bool"
  vision :: "bytes \<Rightarrow> analysis option"
  listing :: "string \<Rightarrow> string list option"

text \<open>
  The state: the blobs of the container, the regular files of the local file system under
  the paths the scripts spell, the directories the run has asked for with \<open>os.makedirs\<close>,
  and what has been printed.
\<close>

record world =
  blobs :: "(string \<times> bytes) list"
  files :: "(string \<times> bytes) list"
  dirs :: "string list"
  stdout :: "msg list"

text \<open>
  A statement of the scripts is a function from the world to a result and the world after
  it. An exception is the result \<open>Inl\<close>; the world it leaves is kept, since nothing is
  rolled back.
\<close>

type_synonym 'a io = "world \<Rightarrow> (error + 'a) \<times> world"

definition io_return :: "'a \<Rightarrow> 'a io" where
  "io_return x w = (Inr x, w)"

definition io_bind :: "'a io \<Rightarrow> ('a \<Rightarrow> 'b io) \<Rightarrow> 'b io" where
  "io_bind m f w = (case m w of (Inl e, w') \<Rightarrow> (Inl e, w') | (Inr x, w') \<Rightarrow> f x w')"

text \<open>A \<open>for\<close> loop whose body has no \<open>break\<close>: an exception in the body leaves the loop.\<close>

fun for_each :: "('a \<Rightarrow> unit io) \<Rightarrow> 'a list \<Rightarrow> unit io" where
  "for_each body [] = io_return ()"
| "for_each body (x # xs) = io_bind (body x) (\<lambda>_. for_each body xs)"

definition print :: "msg \<Rightarrow> unit io" where
  "print m w = (Inr (), w\<lparr>stdout := stdout w @ [m]\<rparr>)"

subsection \<open>The blob container\<close>

definition list_blobs :: "env \<Rightarrow> string list io" where
  "list_blobs env w =
     (if fails env ListBlobs then (Inl (ServiceError ListBlobs), w)
      else (Inr (map fst (blobs w)), w))"

text \<open>\<open>upload_blob(name, data, overwrite=True)\<close>.\<close>

definition upload_blob :: "env \<Rightarrow> string \<Rightarrow> bytes \<Rightarrow> unit io" where
  "upload_blob env name data w =
     (if fails env (UploadBlob name) then (Inl (ServiceError (UploadBlob name)), w)
      else (Inr (), w\<lparr>blobs := AList.update name data (blobs w)\<rparr>))"

definition delete_blob :: "env \<Rightarrow> string \<Rightarrow> unit io" where
  "delete_blob env name w =
     (if fails env (DeleteBlob name) then (Inl (ServiceError (DeleteBlob name)), w)
      else if map_of (blobs w) name = None then (Inl (ResourceNotFound name), w)
      else (Inr (), w\<lparr>blobs := AList.delete name (blobs w)\<rparr>))"

text \<open>\<open>get_blob_client(name).download_blob().readall()\<close>.\<close>

definition download_blob :: "env \<Rightarrow> string \<Rightarrow> bytes io" where
  "download_blob env name w =
     (if fails env (DownloadBlob name) then (Inl (ServiceError (DownloadBlob name)), w)
      else case map_of (blobs w) name of
             None \<Rightarrow> (Inl (ResourceNotFound name), w)
           | Some data \<Rightarrow> (Inr data, w))"

definition container_url :: "env \<Rightarrow> string" where
  "container_url env =
     ''https://'' @ account_name env @ ''.blob.core.windows.net/'' @ BLOB_CONTAINER env @ ''/''"

text \<open>
  The service reads the blob a URL of this container names as the rest of the URL after
  the container's address. The copy is taken as done when the call returns.
\<close>

definition resolve_url :: "env \<Rightarrow> string \<Rightarrow> string option" where
  "resolve_url env url =
     (if prefix (container_url env) url then Some (drop (length (container_url env)) url)
      else None)"

text \<open>\<open>get_blob_client(dest).start_copy_from_url(url)\<close>.\<close>

definition start_copy_from_url :: "env \<Rightarrow> string \<Rightarrow> string \<Rightarrow> unit io" where
  "start_copy_from_url env dest url w =
     (if fails env (StartCopy dest url) then (Inl (ServiceError (StartCopy dest url)), w)
      else case resolve_url env url of
             None \<Rightarrow> (Inl (ResourceNotFound url), w)
           | Some src \<Rightarrow>
               (case map_of (blobs w) src of
                  None \<Rightarrow> (Inl (ResourceNotFound src), w)
                | Some data \<Rightarrow> (Inr (), w\<lparr>blobs := AList.update dest data (blobs w)\<rparr>)))"

subsection \<open>The local file system\<close>

text \<open>\<open>os.listdir(path)\<close>.\<close>

definition listdir :: "env \<Rightarrow> string \<Rightarrow> string list io" where
  "listdir env path w =
     (if fails env (ListDir path) then (Inl (ServiceError (ListDir path)), w)
      else case listing env path of
             None \<Rightarrow> (Inl (FileNotFound path), w)
           | Some names \<Rightarrow> (Inr names, w))"

text \<open>\<open>os.path.isfile(path)\<close>.\<close>

definition isfile :: "world \<Rightarrow> string \<Rightarrow> bool" where
  "isfile w path \<longleftrightarrow> map_of (files w) path \<noteq> None"

text \<open>\<open>open(path, "rb")\<close> and reading the whole stream.\<close>

definition read_file :: "env \<Rightarrow> string \<Rightarrow> bytes io" where
  "read_file env path w =
     (if fails env (OpenRead path) then (Inl (ServiceError (OpenRead path)), w)
      else case map_of (files w) path of
             None \<Rightarrow> (Inl (FileNotFound path), w)
           | Some data \<Rightarrow> (Inr data, w))"

text \<open>
  The paths on the way to \<open>path\<close>: its proper prefixes that end just before a slash.
  \<open>ancestors ''out/a/b.jpg''\<close> is \<open>[''out'', ''out/a'']\<close>.
\<close>

fun ancestors_from :: "string \<Rightarrow> string \<Rightarrow> string list" where
  "ancestors_from pre [] = []"
| "ancestors_from pre (c # cs) =
     (if c = CHR ''/'' \<and> pre \<noteq> [] then [pre] else []) @ ancestors_from (pre @ [c]) cs"

definition ancestors :: "string \<Rightarrow> string list" where
  "ancestors path = ancestors_from [] path"

text \<open>A regular file lies on the way to \<open>path\<close>.\<close>

definition under_file :: "world \<Rightarrow> string \<Rightarrow> bool" where
  "under_file w path \<longleftrightarrow> (\<exists>q \<in> set (ancestors path). isfile w q)"

text \<open>\<open>path.rstrip('/')\<close>.\<close>

definition rstrip_sep :: "string \<Rightarrow> string" where
  "rstrip_sep path = rev (dropWhile (\<lambda>c. c = CHR ''/'') (rev path))"

text \<open>
  \<open>open(path, "wb")\<close>: the file exists and is empty from here on. The call raises
  \<open>FileNotFoundError\<close> for the empty path, \<open>NotADirectoryError\<close> when a regular file lies on
  the way, and \<open>IsADirectoryError\<close> when the last component of the path is empty (the path
  ends in a slash), \<open>.\<close> or \<open>..\<close>. Whatever else refuses the call (a directory already
  under that very name, a missing parent directory, permissions, the length of the name) is
  not read from the state: it is among what \<open>fails\<close> stands for.
\<close>

definition open_wb :: "env \<Rightarrow> string \<Rightarrow> unit io" where
  "open_wb env path w =
     (if fails env (OpenWrite path) then (Inl (ServiceError (OpenWrite path)), w)
      else if path = [] then (Inl (FileNotFound path), w)
      else if under_file w path then (Inl (NotADirectory path), w)
      else if basename path \<in> {[], ''.'', ''..''} then (Inl (IsADirectory path), w)
      else (Inr (), w\<lparr>files := AList.update path [] (files w)\<rparr>))"

text \<open>\<open>f.write(data)\<close> on the file just opened, and closing it.\<close>

definition write_file :: "string \<Rightarrow> bytes \<Rightarrow> unit io" where
  "write_file path data w = (Inr (), w\<lparr>files := AList.update path data (files w)\<rparr>)"

text \<open>\<open>os.remove(path)\<close>.\<close>

definition remove_file :: "env \<Rightarrow> string \<Rightarrow> unit io" where
  "remove_file env path w =
     (if fails env (Remove path) then (Inl (ServiceError (Remove path)), w)
      else if map_of (files w) path = None then (Inl (FileNotFound path), w)
      else (Inr (), w\<lparr>files := AList.delete path (files w)\<rparr>))"

text \<open>
  \<open>os.makedirs(path, exist_ok=True)\<close>. The call raises \<open>FileNotFoundError\<close> for the empty
  path, \<open>FileExistsError\<close> when the path, without its trailing slashes, is a regular file,
  and \<open>NotADirectoryError\<close> when a regular file lies on the way.
\<close>

definition makedirs :: "env \<Rightarrow> string \<Rightarrow> unit io" where
  "makedirs env path w =
     (if fails env (MakeDirs path) then (Inl (ServiceError (MakeDirs path)), w)
      else if path = [] then (Inl (FileNotFound path), w)
      else if isfile w (rstrip_sep path) then (Inl (FileExists path), w)
      else if under_file w path then (Inl (NotADirectory path), w)
      else (Inr (), w\<lparr>dirs := List.insert path (dirs w)\<rparr>))"

section \<open>image\_analyzer.py\<close>

text \<open>\<open>vision_client.analyze_image_in_stream(image_stream, ...)\<close>.\<close>

definition analyze_image_in_stream :: "env \<Rightarrow> bytes \<Rightarrow> analysis io" where
  "analyze_image_in_stream env image_stream w =
     (case vision env image_stream of
        None \<Rightarrow> (Inl VisionError, w)
      | Some a \<Rightarrow> (Inr a, w))"

text \<open>The body of the \<open>try\<close> of \<open>analyze_image_file\<close>. Every branch returns the tags.\<close>

definition analyze_image_file_try :: "env \<Rightarrow> string \<Rightarrow> string \<Rightarrow> string list io" where
  "analyze_image_file_try env image_path search_term =
     io_bind (print (AnalyzingLocalImage image_path)) (\<lambda>_.
     io_bind (read_file env image_path) (\<lambda>image_stream.
     io_bind (analyze_image_in_stream env image_stream) (\<lambda>a.
       let tags = map lower (tag_names a) in
       if lower search_term \<in> set tags
       then io_bind (print (FoundInTags search_term)) (\<lambda>_. io_return tags)
       else if object_properties a \<noteq> []
               \<and> lower search_term \<in> set (map lower (object_properties a))
       then io_bind (print (FoundInObjects search_term)) (\<lambda>_. io_return tags)
       else if \<exists>caption \<in> set (map lower (caption_texts a)). sublist (lower search_term) caption
       then io_bind (print (FoundInDescription search_term)) (\<lambda>_. io_return tags)
       else io_bind (print (DidNotFind search_term)) (\<lambda>_. io_return tags))))"

text \<open>\<open>except Exception as e\<close>: print the error and return the empty list.\<close>

definition analyze_image_file :: "env \<Rightarrow> string \<Rightarrow> string \<Rightarrow> string list io" where
  "analyze_image_file env image_path search_term w =
     (case analyze_image_file_try env image_path search_term w of
        (Inl e, w') \<Rightarrow> io_bind (print (ErrorAnalyzingLocalImage image_path e)) (\<lambda>_. io_return []) w'
      | (Inr tags, w') \<Rightarrow> (Inr tags, w'))"

section \<open>tree\_image\_pipeline.py\<close>

definition upload_one :: "env \<Rightarrow> string \<Rightarrow> string \<Rightarrow> unit io" where
  "upload_one env local_dir fname w =
     (let fpath = path_join local_dir fname in
      if isfile w fpath \<and> \<not> is_video fname
      then io_bind (print (Uploading fname)) (\<lambda>_.
           io_bind (read_file env fpath) (\<lambda>data.
           upload_blob env fname data)) w
      else io_return () w)"

definition upload_local_images :: "env \<Rightarrow> string \<Rightarrow> unit io" where
  "upload_local_images env local_dir =
     io_bind (listdir env local_dir) (\<lambda>fnames. for_each (upload_one env local_dir) fnames)"

definition clean_one :: "env \<Rightarrow> string \<Rightarrow> unit io" where
  "clean_one env name =
     (if \<not> in_tree_folder name
      then io_bind (print (DeletingBlob name)) (\<lambda>_. delete_blob env name)
      else io_return ())"

definition clean_blob_storage :: "env \<Rightarrow> unit io" where
  "clean_blob_storage env =
     io_bind (list_blobs env) (\<lambda>names.
     io_bind (for_each (clean_one env) names) (\<lambda>_.
     print ContainerCleaned))"

definition move_blob_to_tree_folder :: "env \<Rightarrow> string \<Rightarrow> unit io" where
  "move_blob_to_tree_folder env blob_name =
     (let source_blob = container_url env @ blob_name;
          tree_blob_name = TREE_FOLDER @ basename blob_name
      in io_bind (start_copy_from_url env tree_blob_name source_blob) (\<lambda>_.
         print (Moved blob_name tree_blob_name)))"

text \<open>
  The loop over the keywords; its result is \<open>found\<close>. The test of the tags ranges over all
  the keywords, as given, against the lower-cased tags.
\<close>

fun keyword_loop :: "env \<Rightarrow> string list \<Rightarrow> string \<Rightarrow> string \<Rightarrow> string list \<Rightarrow> bool io" where
  "keyword_loop env keywords blob_name temp_path [] = io_return False"
| "keyword_loop env keywords blob_name temp_path (keyword # rest) =
     io_bind (analyze_image_file env temp_path keyword) (\<lambda>tags.
       if tags \<noteq> [] \<and> (\<exists>tag \<in> set tags. \<exists>kw \<in> set keywords. sublist kw (lower tag))
       then io_bind (move_blob_to_tree_folder env blob_name) (\<lambda>_. io_return True)
       else keyword_loop env keywords blob_name temp_path rest)"

definition analyze_one :: "env \<Rightarrow> string list \<Rightarrow> string \<Rightarrow> unit io" where
  "analyze_one env keywords blob_name =
     (if is_video blob_name then print (SkippingVideo blob_name)
      else
        let temp_path = ''temp_'' @ basename blob_name in
        io_bind (open_wb env temp_path) (\<lambda>_.
        io_bind (download_blob env blob_name) (\<lambda>data.
        io_bind (write_file temp_path data) (\<lambda>_.
        io_bind (keyword_loop env keywords blob_name temp_path keywords) (\<lambda>found.
        io_bind (if \<not> found then print (NoTargetKeywords blob_name) else io_return ()) (\<lambda>_.
        remove_file env temp_path))))))"

definition analyze_and_move_blobs :: "env \<Rightarrow> string list \<Rightarrow> unit io" where
  "analyze_and_move_blobs env keywords =
     io_bind (list_blobs env) (\<lambda>names.
     for_each (analyze_one env keywords) (filter (\<lambda>name. \<not> in_tree_folder name) names))"

definition download_one :: "env \<Rightarrow> string \<Rightarrow> string \<Rightarrow> unit io" where
  "download_one env local_dir blob_name =
     (let filename = basename blob_name;
          local_path = path_join local_dir filename
      in io_bind (print (Downloading blob_name local_path)) (\<lambda>_.
         io_bind (open_wb env local_path) (\<lambda>_.
         io_bind (download_blob env blob_name) (\<lambda>data.
         write_file local_path data))))"

definition download_tree_media :: "env \<Rightarrow> string \<Rightarrow> unit io" where
  "download_tree_media env local_dir =
     io_bind (makedirs env local_dir) (\<lambda>_.
     io_bind (list_blobs env) (\<lambda>names.
       let found = filter in_tree_folder names in
       io_bind (print (FoundFiles (length found))) (\<lambda>_.
       io_bind (for_each (download_one env local_dir) found) (\<lambda>_.
       print DownloadComplete))))"

section \<open>A small run\<close>

text \<open>
  A container and a directory to run the scripts on. The vision service knows two images:
  it tags the first as a tree and the second as a car, and it raises on every other image.
\<close>

definition example_env :: env where
  "example_env =
     \<lparr>account_name = ''acct'', BLOB_CONTAINER = ''images'', fails = (\<lambda>c. False),
      vision = (\<lambda>d. if d = [1] then Some \<lparr>tag_names = [''Tree'', ''Plant''],
                                              object_properties = [], caption_texts = []\<rparr>
                     else if d = [2] then Some \<lparr>tag_names = [''car''],
                                                   object_properties = [], caption_texts = []\<rparr>
                     else None),
      listing = (\<lambda>d. if d = ''photos'' then Some [''a.jpg'', ''clip.MP4'', ''notes''] else None)\<rparr>"

definition example_world :: world where
  "example_world =
     \<lparr>blobs = [(''a.jpg'', [1]), (''b.jpg'', [2]), (''c.jpg'', [3]), (''m.mp4'', [1]),
               (''x/s.jpg'', [5]), (''y/s.jpg'', [6]), (''tree-pictures/old.jpg'', [9])],
      files = [(''photos/a.jpg'', [7]), (''photos/clip.MP4'', [8])],
      dirs = [''photos''],
      stdout = []\<rparr>"

text \<open>
  The same surroundings with a service that refuses five calls: the upload and the deletion
  of \<open>a.jpg\<close>, the download of \<open>b.jpg\<close> and of \<open>tree-pictures/old.jpg\<close>, and the copy of
  \<open>a.jpg\<close> into the target folder.
\<close>

definition faulty_env :: env where
  "faulty_env =
     example_env\<lparr>fails := (\<lambda>c. c = UploadBlob ''a.jpg'' \<or> c = DeleteBlob ''a.jpg''
        \<or> c = DownloadBlob ''b.jpg'' \<or> c = DownloadBlob ''tree-pictures/old.jpg''
        \<or> c = StartCopy ''tree-pictures/a.jpg''
                          ''https://acct.blob.core.windows.net/images/a.jpg'')\<rparr>"

text \<open>A container whose first blob is the marker of the target folder itself.\<close>

definition marker_world :: world where
  "marker_world =
     \<lparr>blobs = [(''tree-pictures/'', []), (''tree-pictures/p.jpg'', [2])],
      files = [], dirs = [], stdout = []\<rparr>"

section \<open>Evaluation\<close>

lemmas io_defs = io_bind_def io_return_def print_def

lemmas store_defs =
  list_blobs_def upload_blob_def delete_blob_def download_blob_def container_url_def
  resolve_url_def start_copy_from_url_def

lemmas fs_defs =
  listdir_def isfile_def read_file_def open_wb_def write_file_def remove_file_def makedirs_def
  ancestors_def under_file_def rstrip_sep_def

lemmas path_defs =
  splitext_def slice_def basename_def path_join_def TREE_FOLDER_def VIDEO_EXTENSIONS_def
  is_video_def in_tree_folder_def lower_def lower_char_def suffix_to_prefix

lemmas example_defs = example_env_def example_world_def faulty_env_def marker_world_def

lemmas script_defs =
  analyze_image_in_stream_def analyze_image_file_try_def analyze_image_file_def
  upload_one_def upload_local_images_def clean_one_def clean_blob_storage_def
  move_blob_to_tree_folder_def analyze_one_def analyze_and_move_blobs_def
  download_one_def download_tree_media_def

section \<open>Extensions and videos\<close>

lemma rfind_notin: "c \<notin> set p \<Longrightarrow> rfind p c = - 1" by (induction p) (auto simp: Let_def)
lemma rfind_in: "c \<in> set p \<Longrightarrow> 0 \<le> rfind p c" by (induction p) (auto simp: Let_def)
lemma rfind_append_Cons: "c \<notin> set ys \<Longrightarrow> rfind (xs @ c # ys) c = int (length xs)"
  by (induction xs) (auto simp: Let_def rfind_notin)
lemma rfind_append_notin: "c \<notin> set ys \<Longrightarrow> rfind (xs @ ys) c = rfind xs c"
  by (induction xs) (auto simp: Let_def rfind_notin)
lemma rfind_decomp:
  "0 \<le> rfind p c \<Longrightarrow> \<exists>xs ys. p = xs @ c # ys \<and> c \<notin> set ys \<and> rfind p c = int (length xs)"
proof (induction p)
  case Nil then show ?case by simp
next
  case (Cons x p)
  show ?case
  proof (cases "0 \<le> rfind p c")
    case True
    with Cons.IH obtain xs ys where "p = xs @ c # ys" "c \<notin> set ys" "rfind p c = int (length xs)" by blast
    then show ?thesis using True by (intro exI[of _ "x # xs"] exI[of _ ys]) (simp add: Let_def)
  next
    case False
    with Cons.prems have "x = c" by (auto simp: Let_def split: if_splits)
    moreover from False have "c \<notin> set p" using rfind_in[of c p] by blast
    ultimately show ?thesis using False by (intro exI[of _ "[]"] exI[of _ p]) (simp add: Let_def)
  qed
qed

lemma rfind_dir: "d = [] \<or> last d = c \<Longrightarrow> rfind d c + 1 = int (length d)"
proof (cases d rule: rev_cases)
  case Nil then show ?thesis by simp
next
  case (snoc ds x)
  assume "d = [] \<or> last d = c"
  with snoc have "d = ds @ c # []" by simp
  then show ?thesis using rfind_append_Cons[of c "[]" ds] by simp
qed

lemma splitext_of_extension:
  assumes "is_extension_of e name"
  shows "snd (splitext name) = e"
proof -
  from assms obtain d f rest where n: "name = d @ f @ e" and e: "e = CHR ''.'' # rest"
    and r: "CHR ''.'' \<notin> set rest" "CHR ''/'' \<notin> set rest"
    and d: "d = [] \<or> last d = CHR ''/''" and f: "CHR ''/'' \<notin> set f"
    and nd: "\<exists>c \<in> set f. c \<noteq> CHR ''.''"
    unfolding is_extension_of_def by blast
  have dot: "rfind name CHR ''.'' = int (length (d @ f))"
    using rfind_append_Cons[OF r(1), of "d @ f"] by (simp add: n e)
  have "rfind name CHR ''/'' = rfind d CHR ''/''"
    using rfind_append_notin[of "CHR ''/''" "f @ e" d] f r(2) by (simp add: n e)
  with rfind_dir[OF d] have sep: "rfind name CHR ''/'' + 1 = int (length d)" by simp
  have sl: "slice name (rfind name CHR ''/'' + 1) (rfind name CHR ''.'') = f"
    unfolding sep dot by (simp add: slice_def n)
  have "rfind name CHR ''/'' < rfind name CHR ''.''" using sep dot by simp
  then show ?thesis using nd sl dot by (simp add: splitext_def Let_def n)
qed

lemma extension_of_splitext:
  assumes "snd (splitext name) \<noteq> []"
  shows "is_extension_of (snd (splitext name)) name"
proof -
  let ?s = "rfind name CHR ''/''" and ?t = "rfind name CHR ''.''"
  from assms have lt: "?s < ?t" and nd: "\<exists>c \<in> set (slice name (?s + 1) ?t). c \<noteq> CHR ''.''"
    and ex: "snd (splitext name) = drop (nat ?t) name"
    by (auto simp: splitext_def Let_def split: if_splits)
  have s_ge: "- 1 \<le> ?s"
    using rfind_notin[of "CHR ''/''" name] rfind_in[of "CHR ''/''" name] by (cases "CHR ''/'' \<in> set name") auto
  with lt have "0 \<le> ?t" by simp
  from rfind_decomp[OF this] obtain xs rest where n: "name = xs @ CHR ''.'' # rest"
    and r: "CHR ''.'' \<notin> set rest" and t: "?t = int (length xs)" by blast
  have e: "snd (splitext name) = CHR ''.'' # rest" using ex t n by simp
  have "\<exists>d f. xs = d @ f \<and> (d = [] \<or> last d = CHR ''/'') \<and> CHR ''/'' \<notin> set f \<and> CHR ''/'' \<notin> set rest
          \<and> ?s + 1 = int (length d)"
  proof (cases "0 \<le> ?s")
    case False
    then have "CHR ''/'' \<notin> set name" using rfind_in[of "CHR ''/''" name] by blast
    moreover have "?s = - 1" using False s_ge by simp
    ultimately show ?thesis using n by (intro exI[of _ "[]"] exI[of _ xs]) auto
  next
    case True
    from rfind_decomp[OF this] obtain ds ys where n2: "name = ds @ CHR ''/'' # ys"
      and y: "CHR ''/'' \<notin> set ys" and s: "?s = int (length ds)" by blast
    from lt s t have len: "length ds < length xs" by simp
    from n n2 have eq: "xs @ CHR ''.'' # rest = ds @ CHR ''/'' # ys" by simp
    then have "take (length xs) (ds @ CHR ''/'' # ys) = xs" by (metis append_eq_conv_conj)
    with len have "xs = ds @ CHR ''/'' # take (length xs - Suc (length ds)) ys"
      by (simp add: take_Cons')
    then obtain f where xs: "xs = (ds @ [CHR ''/'']) @ f" and fy: "f = take (length xs - Suc (length ds)) ys"
      by simp
    from eq xs have "ys = f @ CHR ''.'' # rest" by simp
    with y have "CHR ''/'' \<notin> set f" "CHR ''/'' \<notin> set rest" by auto
    then show ?thesis using xs s by (intro exI[of _ "ds @ [CHR ''/'']"] exI[of _ f]) simp
  qed
  then obtain d f where xs: "xs = d @ f" and d: "d = [] \<or> last d = CHR ''/''"
    and f: "CHR ''/'' \<notin> set f" and r2: "CHR ''/'' \<notin> set rest" and s1: "?s + 1 = int (length d)" by blast
  have "slice name (?s + 1) ?t = f" unfolding s1 t by (simp add: slice_def n xs)
  with nd have "\<exists>c \<in> set f. c \<noteq> CHR ''.''" by simp
  then show ?thesis unfolding is_extension_of_def e
    using n xs r r2 d f by (intro exI[of _ d] exI[of _ f] exI[of _ rest]) simp
qed

text \<open>
  C9. \<open>is_video name\<close> holds exactly when the name has an extension that, lower-cased, is
  one of \<open>.mp4\<close>, \<open>.mov\<close>, \<open>.avi\<close>, \<open>.mkv\<close>, \<open>.webm\<close>; \<open>clip.MP4\<close> is a video and
  \<open>photo.jpg\<close> is not. The extension is the one of \<open>os.path.splitext\<close>: the part from the
  last dot of the last path component, when something other than dots comes before it there.
\<close>

theorem is_video_iff_extension:
  "(is_video name \<longleftrightarrow> (\<exists>e. is_extension_of e name \<and> lower e \<in> VIDEO_EXTENSIONS))
   \<and> is_video ''clip.MP4'' \<and> \<not> is_video ''photo.jpg''"
proof (intro conjI iffI)
  assume v: "is_video name"
  then have "snd (splitext name) \<noteq> []"
    by (auto simp: is_video_def VIDEO_EXTENSIONS_def lower_def)
  from extension_of_splitext[OF this] v
  show "\<exists>e. is_extension_of e name \<and> lower e \<in> VIDEO_EXTENSIONS"
    unfolding is_video_def by blast
next
  assume "\<exists>e. is_extension_of e name \<and> lower e \<in> VIDEO_EXTENSIONS"
  then show "is_video name"
    unfolding is_video_def using splitext_of_extension by auto
next
  show "is_video ''clip.MP4''" by (simp add: path_defs)
next
  show "\<not> is_video ''photo.jpg''" by (simp add: path_defs)
qed

theorem is_video_iff_extension_witness:
  "is_extension_of ''.MoV'' ''trips/2019.summer/beach.MoV''
   \<and> is_video ''trips/2019.summer/beach.MoV''"
proof -
  have e: "is_extension_of ''.MoV'' ''trips/2019.summer/beach.MoV''"
    unfolding is_extension_of_def
    by (intro exI[of _ "''trips/2019.summer/''"] exI[of _ "''beach''"] exI[of _ "''MoV''"]) simp
  moreover have "lower ''.MoV'' \<in> VIDEO_EXTENSIONS" by (simp add: path_defs)
  ultimately show ?thesis
    using is_video_iff_extension [of "''trips/2019.summer/beach.MoV''"] by blast
qed

section \<open>The classifier\<close>

text \<open>
  C4. When the call to the vision service raises, \<open>analyze_image_file\<close> returns the empty
  list of tags as an ordinary result, whatever the image and the keyword: the exception is
  caught, and a diagnostic is printed.
\<close>

theorem analyze_image_file_service_error:
  assumes "\<not> fails env (OpenRead image_path)"
    and "map_of (files w) image_path = Some img"
    and "vision env img = None"
  shows "analyze_image_file env image_path search_term w =
           (Inr [], w\<lparr>stdout := stdout w @ [AnalyzingLocalImage image_path,
                                             ErrorAnalyzingLocalImage image_path VisionError]\<rparr>)"
  using assms
  by (simp add: analyze_image_file_def analyze_image_file_try_def analyze_image_in_stream_def
      read_file_def io_defs)

theorem analyze_image_file_service_error_witness:
  "\<not> fails example_env (OpenRead ''photos/a.jpg'')
   \<and> map_of (files example_world) ''photos/a.jpg'' = Some [7]
   \<and> vision example_env [7] = None
   \<and> analyze_image_file example_env ''photos/a.jpg'' ''tree'' example_world =
        (Inr [], example_world\<lparr>stdout := stdout example_world @
                   [AnalyzingLocalImage ''photos/a.jpg'',
                    ErrorAnalyzingLocalImage ''photos/a.jpg'' VisionError]\<rparr>)"
proof -
  have h1: "\<not> fails example_env (OpenRead ''photos/a.jpg'')"
    by (simp add: example_defs)
  have h2: "map_of (files example_world) ''photos/a.jpg'' = Some [7]"
    by (simp add: example_defs)
  have h3: "vision example_env [7] = None"
    by (simp add: example_defs)
  from analyze_image_file_service_error [OF h1 h2 h3, of "''tree''"] h1 h2 h3
  show ?thesis by blast
qed

section \<open>Moving a blob\<close>

lemma resolve_container_url: "resolve_url env (container_url env @ name) = Some name"
  by (simp add: resolve_url_def)

lemma in_tree_folder_dest: "in_tree_folder (TREE_FOLDER @ x)"
  by (simp add: in_tree_folder_def)

lemma move_blob_result:
  assumes "map_of (blobs w) blob_name = Some data"
    and "\<not> fails env (StartCopy (TREE_FOLDER @ basename blob_name) (container_url env @ blob_name))"
  shows "move_blob_to_tree_folder env blob_name w =
           (Inr (), w\<lparr>blobs := AList.update (TREE_FOLDER @ basename blob_name) data (blobs w),
                       stdout := stdout w @ [Moved blob_name (TREE_FOLDER @ basename blob_name)]\<rparr>)"
  using assms
  by (simp add: move_blob_to_tree_folder_def start_copy_from_url_def resolve_container_url
      io_defs Let_def)

text \<open>
  C3, as the claim has it, fails: after \<open>a.jpg\<close> is moved, it is still there under its old
  name. The move is a copy; nothing deletes the source.
\<close>

theorem move_keeps_source_counterexample:
  "fst (move_blob_to_tree_folder example_env ''a.jpg'' example_world) = Inr ()
   \<and> map_of (blobs (snd (move_blob_to_tree_folder example_env ''a.jpg'' example_world)))
        ''tree-pictures/a.jpg'' = Some [1]
   \<and> map_of (blobs (snd (move_blob_to_tree_folder example_env ''a.jpg'' example_world)))
        ''a.jpg'' = Some [1]"
  by (simp add: example_defs move_blob_to_tree_folder_def store_defs io_defs path_defs Let_def)

text \<open>
  C3, amended. Whether a name is in the target folder is decided by its prefix alone. A
  move that the service accepts is a copy: afterwards the blob's bytes are under the
  prefixed name, which is in the target folder, the source is still under its old name with
  the same bytes, and no other blob has changed.
\<close>

theorem move_blob_to_tree_folder_copies:
  assumes "map_of (blobs w) blob_name = Some data"
    and "\<not> fails env (StartCopy (TREE_FOLDER @ basename blob_name) (container_url env @ blob_name))"
  shows "\<exists>w'. move_blob_to_tree_folder env blob_name w = (Inr (), w')
           \<and> in_tree_folder (TREE_FOLDER @ basename blob_name)
           \<and> map_of (blobs w') (TREE_FOLDER @ basename blob_name) = Some data
           \<and> map_of (blobs w') blob_name = Some data
           \<and> (\<forall>k. k \<noteq> TREE_FOLDER @ basename blob_name
                  \<longrightarrow> map_of (blobs w') k = map_of (blobs w) k)
           \<and> (\<forall>name. in_tree_folder name \<longleftrightarrow> prefix ''tree-pictures/'' name)"
  using assms
  by (simp add: move_blob_result[OF assms] in_tree_folder_dest update_conv')
     (simp add: in_tree_folder_def TREE_FOLDER_def)

theorem move_blob_to_tree_folder_copies_witness:
  "map_of (blobs example_world) ''x/s.jpg'' = Some [5]
   \<and> \<not> fails example_env (StartCopy (TREE_FOLDER @ basename ''x/s.jpg'')
                                        (container_url example_env @ ''x/s.jpg''))
   \<and> (\<exists>w'. move_blob_to_tree_folder example_env ''x/s.jpg'' example_world = (Inr (), w')
         \<and> map_of (blobs w') ''tree-pictures/s.jpg'' = Some [5]
         \<and> map_of (blobs w') ''x/s.jpg'' = Some [5])"
proof -
  have h1: "map_of (blobs example_world) ''x/s.jpg'' = Some [5]"
    by (simp add: example_defs)
  have h2: "\<not> fails example_env (StartCopy (TREE_FOLDER @ basename ''x/s.jpg'')
                                        (container_url example_env @ ''x/s.jpg''))"
    by (simp add: example_defs)
  have d: "TREE_FOLDER @ basename ''x/s.jpg'' = ''tree-pictures/s.jpg''"
    by (simp add: path_defs)
  from move_blob_to_tree_folder_copies [OF h1 h2] h1 h2 show ?thesis
    unfolding d by blast
qed

text \<open>
  C10. The destination of a move is the target folder's prefix followed by the base name
  of the source. So two sources with the same base name go to the same key, and the bytes
  there after both moves are those of the second source.
\<close>

theorem move_same_basename_overwrites:
  assumes "map_of (blobs w) a = Some x" and "map_of (blobs w) b = Some y"
    and "basename a = basename b" and "b \<noteq> TREE_FOLDER @ basename a"
    and "\<forall>c. \<not> fails env c"
  shows "\<exists>w1 w2. move_blob_to_tree_folder env a w = (Inr (), w1)
           \<and> blobs w1 = AList.update (TREE_FOLDER @ basename a) x (blobs w)
           \<and> move_blob_to_tree_folder env b w1 = (Inr (), w2)
           \<and> blobs w2 = AList.update (TREE_FOLDER @ basename a) y (blobs w1)
           \<and> map_of (blobs w1) (TREE_FOLDER @ basename a) = Some x
           \<and> map_of (blobs w2) (TREE_FOLDER @ basename a) = Some y"
proof -
  let ?d = "TREE_FOLDER @ basename a"
  let ?w1 = "w\<lparr>blobs := AList.update ?d x (blobs w), stdout := stdout w @ [Moved a ?d]\<rparr>"
  have 1: "move_blob_to_tree_folder env a w = (Inr (), ?w1)"
    using assms by (simp add: move_blob_result)
  have "map_of (blobs ?w1) b = Some y"
    using assms(2,4) by (simp add: update_conv')
  from move_blob_result[OF this, of env] assms(3,5)
  have 2: "move_blob_to_tree_folder env b ?w1 =
     (Inr (), ?w1\<lparr>blobs := AList.update ?d y (blobs ?w1), stdout := stdout ?w1 @ [Moved b ?d]\<rparr>)"
    by simp
  show ?thesis using 1 2 by (simp add: update_conv')
qed

theorem move_same_basename_overwrites_witness:
  "map_of (blobs example_world) ''x/s.jpg'' = Some [5]
   \<and> map_of (blobs example_world) ''y/s.jpg'' = Some [6]
   \<and> basename ''x/s.jpg'' = basename ''y/s.jpg''
   \<and> ''y/s.jpg'' \<noteq> TREE_FOLDER @ basename ''x/s.jpg''
   \<and> (\<forall>c. \<not> fails example_env c)
   \<and> (\<exists>w1 w2. move_blob_to_tree_folder example_env ''x/s.jpg'' example_world = (Inr (), w1)
         \<and> move_blob_to_tree_folder example_env ''y/s.jpg'' w1 = (Inr (), w2)
         \<and> map_of (blobs w1) ''tree-pictures/s.jpg'' = Some [5]
         \<and> map_of (blobs w2) ''tree-pictures/s.jpg'' = Some [6])"
proof -
  have h1: "map_of (blobs example_world) ''x/s.jpg'' = Some [5]"
    and h2: "map_of (blobs example_world) ''y/s.jpg'' = Some [6]"
    and h5: "\<forall>c. \<not> fails example_env c"
    by (simp_all add: example_defs)
  have h3: "basename ''x/s.jpg'' = basename ''y/s.jpg''"
    and h4: "''y/s.jpg'' \<noteq> TREE_FOLDER @ basename ''x/s.jpg''"
    and d: "TREE_FOLDER @ basename ''x/s.jpg'' = ''tree-pictures/s.jpg''"
    by (simp_all add: path_defs)
  from move_same_basename_overwrites [OF h1 h2 h3 h4 h5] h1 h2 h3 h4 h5 show ?thesis
    unfolding d by blast
qed

section \<open>The clean step\<close>

lemma keys_delete: "fst ` set (AList.delete k al) = fst ` set al - {k}"
  by (induction al) auto

lemma clean_loop:
  assumes nf: "\<forall>n. \<not> in_tree_folder n \<longrightarrow> \<not> fails env (DeleteBlob n)"
  shows "distinct ns \<Longrightarrow> set ns \<subseteq> fst ` set (blobs w) \<Longrightarrow>
     for_each (clean_one env) ns w =
       (Inr (), w\<lparr>blobs := filter (\<lambda>(k, v). in_tree_folder k \<or> k \<notin> set ns) (blobs w),
                   stdout := stdout w @ map DeletingBlob (filter (\<lambda>n. \<not> in_tree_folder n) ns)\<rparr>)"
proof (induction ns arbitrary: w)
  case Nil
  then show ?case by (simp add: io_defs)
next
  case (Cons n ns)
  show ?case
  proof (cases "in_tree_folder n")
    case True
    have "for_each (clean_one env) (n # ns) w = for_each (clean_one env) ns w"
      using True by (simp add: clean_one_def io_defs)
    also have "\<dots> = (Inr (), w\<lparr>blobs := filter (\<lambda>(k, v). in_tree_folder k \<or> k \<notin> set ns) (blobs w),
                   stdout := stdout w @ map DeletingBlob (filter (\<lambda>n. \<not> in_tree_folder n) ns)\<rparr>)"
      using Cons.prems by (intro Cons.IH) auto
    also have "filter (\<lambda>(k, v). in_tree_folder k \<or> k \<notin> set ns) (blobs w)
        = filter (\<lambda>(k, v). in_tree_folder k \<or> k \<notin> set (n # ns)) (blobs w)"
      using True by (intro filter_cong) auto
    finally show ?thesis using True by simp
  next
    case False
    let ?w1 = "w\<lparr>stdout := stdout w @ [DeletingBlob n], blobs := AList.delete n (blobs w)\<rparr>"
    from Cons.prems have "map_of (blobs w) n \<noteq> None"
      by (auto simp: map_of_eq_None_iff)
    then have "for_each (clean_one env) (n # ns) w = for_each (clean_one env) ns ?w1"
      using False nf by (auto simp add: clean_one_def delete_blob_def io_defs)
    also have "\<dots> = (Inr (), ?w1\<lparr>blobs := filter (\<lambda>(k, v). in_tree_folder k \<or> k \<notin> set ns) (blobs ?w1),
                   stdout := stdout ?w1 @ map DeletingBlob (filter (\<lambda>n. \<not> in_tree_folder n) ns)\<rparr>)"
      using Cons.prems by (intro Cons.IH) (auto simp: keys_delete)
    also have "filter (\<lambda>(k, v). in_tree_folder k \<or> k \<notin> set ns) (blobs ?w1)
        = filter (\<lambda>(k, v). in_tree_folder k \<or> k \<notin> set (n # ns)) (blobs w)"
      using False by (auto simp: AList.delete_eq intro: filter_cong)
    finally show ?thesis using False by simp
  qed
qed

text \<open>
  C6. When the listing and the deletions are accepted by the service, the clean step
  completes and deletes exactly the blobs outside the target folder: the container is left
  with the blobs whose names have the prefix, each as it was, and with no other blob.
\<close>

theorem clean_blob_storage_keeps_tree_folder:
  assumes "\<not> fails env ListBlobs"
    and "\<forall>n. \<not> in_tree_folder n \<longrightarrow> \<not> fails env (DeleteBlob n)"
    and "distinct (map fst (blobs w))"
  shows "clean_blob_storage env w =
    (Inr (), w\<lparr>blobs := filter (\<lambda>(name, data). in_tree_folder name) (blobs w),
                stdout := stdout w
                  @ map DeletingBlob (filter (\<lambda>n. \<not> in_tree_folder n) (map fst (blobs w)))
                  @ [ContainerCleaned]\<rparr>)"
proof -
  have "filter (\<lambda>(k, v). in_tree_folder k \<or> k \<notin> set (map fst (blobs w))) (blobs w)
      = filter (\<lambda>(name, data). in_tree_folder name) (blobs w)"
    by (intro filter_cong) force+
  then show ?thesis
    using assms(1) clean_loop[OF assms(2), of "map fst (blobs w)" w] assms(3)
    by (simp add: clean_blob_storage_def list_blobs_def io_defs)
qed

theorem clean_blob_storage_keeps_tree_folder_witness:
  "\<not> fails example_env ListBlobs
   \<and> distinct (map fst (blobs example_world))
   \<and> fst (clean_blob_storage example_env example_world) = Inr ()
   \<and> blobs (snd (clean_blob_storage example_env example_world)) = [(''tree-pictures/old.jpg'', [9])]"
proof -
  have h1: "\<not> fails example_env ListBlobs"
    and h2: "\<forall>n. \<not> in_tree_folder n \<longrightarrow> \<not> fails example_env (DeleteBlob n)"
    and h3: "distinct (map fst (blobs example_world))"
    by (simp_all add: example_defs)
  have "filter (\<lambda>(name, data). in_tree_folder name) (blobs example_world)
          = [(''tree-pictures/old.jpg'', [9])]"
    by (simp add: example_defs in_tree_folder_def TREE_FOLDER_def)
  with clean_blob_storage_keeps_tree_folder [OF h1 h2 h3] h1 h2 h3 show ?thesis
    by simp
qed

section \<open>Loops\<close>

lemma for_each_preserves:
  assumes "\<And>x w. P w \<Longrightarrow> P (snd (body x w))"
  shows "P w \<Longrightarrow> P (snd (for_each body xs w))"
proof (induction xs arbitrary: w)
  case Nil then show ?case by (simp add: io_return_def)
next
  case (Cons x xs)
  from Cons.prems have p: "P (snd (body x w))" by (rule assms)
  show ?case
  proof (cases "body x w")
    case (Pair r w1)
    with p have p1: "P w1" by simp
    show ?thesis
    proof (cases r)
      case (Inl e) with Pair p1 show ?thesis by (simp add: io_bind_def)
    next
      case (Inr u) with Pair Cons.IH[OF p1] show ?thesis by (simp add: io_bind_def)
    qed
  qed
qed

section \<open>The upload step\<close>

lemma upload_loop:
  assumes nf: "\<forall>c. \<not> fails env c"
  shows "files w = fs \<Longrightarrow> for_each (upload_one env dir) names w =
      (Inr (), w\<lparr>blobs := foldl (\<lambda>bs (n, d). AList.update n d bs) (blobs w)
                    (List.map_filter (\<lambda>n. if is_video n then None
                                          else map_option (Pair n) (map_of fs (path_join dir n))) names),
                  stdout := stdout w @ map Uploading
                    (filter (\<lambda>n. \<not> is_video n \<and> map_of fs (path_join dir n) \<noteq> None) names)\<rparr>)"
proof (induction names arbitrary: w)
  case Nil then show ?case by (simp add: io_defs List.map_filter_simps)
next
  case (Cons n names)
  show ?case
  proof (cases "\<not> is_video n \<and> map_of fs (path_join dir n) \<noteq> None")
    case False
    then have "upload_one env dir n w = (Inr (), w)"
      using Cons.prems by (auto simp add: upload_one_def isfile_def io_defs Let_def)
    then show ?thesis using False Cons.IH[OF Cons.prems]
      by (auto simp add: io_bind_def List.map_filter_simps)
  next
    case True
    then obtain d where d: "map_of fs (path_join dir n) = Some d" by auto
    let ?w1 = "w\<lparr>stdout := stdout w @ [Uploading n], blobs := AList.update n d (blobs w)\<rparr>"
    have "upload_one env dir n w = (Inr (), ?w1)"
      using True d nf Cons.prems
      by (simp add: upload_one_def isfile_def read_file_def upload_blob_def io_defs Let_def)
    moreover have "files ?w1 = fs" using Cons.prems by simp
    ultimately show ?thesis using True d Cons.IH[of ?w1]
      by (simp add: io_bind_def List.map_filter_simps)
  qed
qed

lemma upload_one_video_safe:
  assumes "is_video v"
  shows "map_of (blobs (snd (upload_one env dir n w))) v = map_of (blobs w) v"
proof (cases "n = v")
  case True with assms show ?thesis by (simp add: upload_one_def io_defs Let_def)
next
  case False
  then show ?thesis
    by (simp add: upload_one_def read_file_def upload_blob_def io_defs Let_def update_conv'
        split: option.splits)
qed

text \<open>
  C7. When no external call raises and the directory lists as \<open>names\<close>, the upload step
  completes, and it uploads, in order, each listed name that is a regular file of the
  directory and not a video, under that name and with the file's bytes, replacing a blob
  of the same name. Whatever the directory holds and whatever call raises, the blob under
  a video name is after the step what it was before.
\<close>

theorem upload_local_images_uploads_non_videos:
  "((\<forall>c. \<not> fails env c) \<and> listing env local_dir = Some names \<longrightarrow>
      upload_local_images env local_dir w =
        (Inr (), w\<lparr>blobs := foldl (\<lambda>bs (name, data). AList.update name data bs) (blobs w)
                      (List.map_filter
                         (\<lambda>n. if is_video n then None
                              else map_option (Pair n) (map_of (files w) (path_join local_dir n)))
                         names),
                    stdout := stdout w @ map Uploading
                      (filter (\<lambda>n. \<not> is_video n \<and> isfile w (path_join local_dir n)) names)\<rparr>))
   \<and> (\<forall>v. is_video v \<longrightarrow>
          map_of (blobs (snd (upload_local_images env local_dir w))) v = map_of (blobs w) v)"
proof (intro conjI impI allI)
  assume a: "(\<forall>c. \<not> fails env c) \<and> listing env local_dir = Some names"
  then have nf: "\<forall>c. \<not> fails env c" by simp
  from a upload_loop[OF nf refl, of local_dir names w]
  show "upload_local_images env local_dir w =
        (Inr (), w\<lparr>blobs := foldl (\<lambda>bs (name, data). AList.update name data bs) (blobs w)
                      (List.map_filter
                         (\<lambda>n. if is_video n then None
                              else map_option (Pair n) (map_of (files w) (path_join local_dir n)))
                         names),
                    stdout := stdout w @ map Uploading
                      (filter (\<lambda>n. \<not> is_video n \<and> isfile w (path_join local_dir n)) names)\<rparr>)"
    by (simp add: upload_local_images_def listdir_def io_bind_def isfile_def)
next
  fix v assume v: "is_video v"
  have "map_of (blobs (snd (for_each (upload_one env local_dir) ns w))) v = map_of (blobs w) v" for ns
    by (rule for_each_preserves[where P = "\<lambda>w'. map_of (blobs w') v = map_of (blobs w) v"])
       (simp_all add: upload_one_video_safe[OF v])
  then show "map_of (blobs (snd (upload_local_images env local_dir w))) v = map_of (blobs w) v"
    by (simp add: upload_local_images_def listdir_def io_bind_def split: option.splits)
qed

theorem upload_local_images_uploads_non_videos_witness:
  "(\<forall>c. \<not> fails example_env c)
   \<and> listing example_env ''photos'' = Some [''a.jpg'', ''clip.MP4'', ''notes'']
   \<and> is_video ''clip.MP4''
   \<and> fst (upload_local_images example_env ''photos'' example_world) = Inr ()
   \<and> map_of (blobs (snd (upload_local_images example_env ''photos'' example_world))) ''a.jpg''
        = Some [7]
   \<and> map_of (blobs (snd (upload_local_images example_env ''photos'' example_world))) ''clip.MP4''
        = None"
proof -
  have h1: "\<forall>c. \<not> fails example_env c"
    and h2: "listing example_env ''photos'' = Some [''a.jpg'', ''clip.MP4'', ''notes'']"
    by (simp_all add: example_defs)
  have v: "is_video ''clip.MP4''" "\<not> is_video ''a.jpg''" "\<not> is_video ''notes''"
    by (simp_all add: path_defs)
  have f: "files example_world = [(''photos/a.jpg'', [7]), (''photos/clip.MP4'', [8])]"
    and b: "map_of (blobs example_world) ''clip.MP4'' = None"
    by (simp_all add: example_defs)
  have j: "path_join ''photos'' ''a.jpg'' = ''photos/a.jpg''"
    "path_join ''photos'' ''notes'' = ''photos/notes''"
    by (simp_all add: path_join_def suffix_to_prefix)
  note t = upload_local_images_uploads_non_videos
    [of example_env "''photos''" "[''a.jpg'', ''clip.MP4'', ''notes'']" example_world]
  from t h1 h2
  have r: "upload_local_images example_env ''photos'' example_world =
      (Inr (), example_world\<lparr>blobs := AList.update ''a.jpg'' [7] (blobs example_world),
                 stdout := stdout example_world @ [Uploading ''a.jpg'']\<rparr>)"
    using v by (simp add: List.map_filter_simps f j isfile_def)
  from t v(1)
  have nv: "map_of (blobs (snd (upload_local_images example_env ''photos'' example_world)))
               ''clip.MP4'' = map_of (blobs example_world) ''clip.MP4''"
    by blast
  show ?thesis using h1 h2 v(1) r nv b by (simp add: update_conv')
qed

section \<open>Paths the scripts write to\<close>

lemma ancestors_from_no_sep: "CHR ''/'' \<notin> set cs \<Longrightarrow> ancestors_from pre cs = []"
  by (induction cs arbitrary: pre) auto

lemma ancestors_from_append:
  "ancestors_from pre (xs @ ys) = ancestors_from pre xs @ ancestors_from (pre @ xs) ys"
  by (induction xs arbitrary: pre) auto

lemma ancestors_from_length:
  "q \<in> set (ancestors_from pre cs) \<Longrightarrow> length q < length pre + length cs"
  by (induction cs arbitrary: pre) (fastforce split: if_splits)+

lemma ancestors_length: "q \<in> set (ancestors d) \<Longrightarrow> length q < length d"
  using ancestors_from_length[of q "[]" d] by (simp add: ancestors_def)

lemma rfind_ge: "- 1 \<le> rfind p c"
  using rfind_notin[of c p] rfind_in[of c p] by (cases "c \<in> set p") auto

lemma nat_int_Suc: "nat (int n + 1) = Suc n"
  by arith

lemma basename_no_sep: "CHR ''/'' \<notin> set (basename p)"
proof (cases "0 \<le> rfind p CHR ''/''")
  case True
  from rfind_decomp[OF this] obtain xs ys where "p = xs @ CHR ''/'' # ys" "CHR ''/'' \<notin> set ys"
    "rfind p CHR ''/'' = int (length xs)" by blast
  then show ?thesis by (simp add: basename_def nat_int_Suc)
next
  case False
  then have "CHR ''/'' \<notin> set p" using rfind_in[of "CHR ''/''" p] by blast
  then show ?thesis by (auto simp: basename_def dest: in_set_dropD)
qed

lemma basename_id: "CHR ''/'' \<notin> set p \<Longrightarrow> basename p = p"
  by (simp add: basename_def rfind_notin)

lemma basename_after_sep: "CHR ''/'' \<notin> set b \<Longrightarrow> basename (xs @ CHR ''/'' # b) = b"
  by (simp add: basename_def rfind_append_Cons nat_int_Suc)

lemma temp_path_opens:
  assumes "\<not> fails env (OpenWrite (''temp_'' @ basename b))"
  shows "open_wb env (''temp_'' @ basename b) w =
           (Inr (), w\<lparr>files := AList.update (''temp_'' @ basename b) [] (files w)\<rparr>)"
proof -
  have n: "CHR ''/'' \<notin> set (''temp_'' @ basename b)" using basename_no_sep[of b] by simp
  have "basename (''temp_'' @ basename b) = ''temp_'' @ basename b" by (rule basename_id[OF n])
  moreover have "ancestors (''temp_'' @ basename b) = []"
    unfolding ancestors_def by (rule ancestors_from_no_sep[OF n])
  ultimately show ?thesis using assms by (simp add: open_wb_def under_file_def)
qed

lemma suffix_sep_iff: "suffix ''/'' d \<longleftrightarrow> (\<exists>xs. d = xs @ ''/'')"
  by (auto simp: suffix_def)

lemma rstrip_sep_id: "\<not> suffix ''/'' d \<Longrightarrow> rstrip_sep d = d"
  by (cases d rule: rev_cases) (auto simp: rstrip_sep_def suffix_def)

lemma rstrip_sep_length: "length (rstrip_sep d) \<le> length d"
  unfolding rstrip_sep_def by (metis length_dropWhile_le length_rev)

lemma path_join_basename:
  assumes b: "b \<noteq> []" and n: "CHR ''/'' \<notin> set b"
  shows "basename (path_join d b) = b"
    and "path_join d b \<noteq> []"
    and "length d < length (path_join d b)"
    and "set (ancestors (path_join d b)) \<subseteq> set (ancestors d) \<union> {rstrip_sep d}"
proof -
  from b n have np: "\<not> prefix ''/'' b" by (cases b) auto
  consider (empty) "d = []" | (slash) xs where "d = xs @ ''/''" | (plain) "d \<noteq> []" "\<not> suffix ''/'' d"
    using suffix_sep_iff by blast
  then have "basename (path_join d b) = b \<and> path_join d b \<noteq> [] \<and> length d < length (path_join d b)
      \<and> set (ancestors (path_join d b)) \<subseteq> set (ancestors d) \<union> {rstrip_sep d}"
  proof cases
    case empty
    with np b n show ?thesis
      by (simp add: path_join_def basename_id ancestors_def ancestors_from_no_sep)
  next
    case (slash xs)
    then have j: "path_join d b = xs @ CHR ''/'' # b" using np by (simp add: path_join_def)
    have "ancestors (d @ b) = ancestors d"
      unfolding ancestors_def ancestors_from_append using n by (simp add: ancestors_from_no_sep)
    then show ?thesis using slash b n unfolding j by (auto simp add: basename_after_sep)
  next
    case plain
    then have j: "path_join d b = d @ CHR ''/'' # b" using np by (simp add: path_join_def)
    have "ancestors (d @ CHR ''/'' # b) = ancestors d @ [d]"
      unfolding ancestors_def ancestors_from_append using n plain(1)
      by (simp add: ancestors_from_no_sep)
    then show ?thesis using plain b n unfolding j
      by (simp add: basename_after_sep rstrip_sep_id)
  qed
  then show "basename (path_join d b) = b" "path_join d b \<noteq> []" "length d < length (path_join d b)"
    "set (ancestors (path_join d b)) \<subseteq> set (ancestors d) \<union> {rstrip_sep d}" by blast+
qed

section \<open>The download step\<close>

lemma download_one_result:
  assumes nf: "\<forall>c. \<not> fails env c" and b: "map_of (blobs w) n = Some d"
    and s: "basename n \<notin> {[], ''.'', ''..''}"
    and u: "\<not> under_file w dir" and r: "\<not> isfile w (rstrip_sep dir)"
  defines "p \<equiv> path_join dir (basename n)"
  defines "w1 \<equiv> w\<lparr>stdout := stdout w @ [Downloading n p], files := AList.update p d (files w)\<rparr>"
  shows "download_one env dir n w = (Inr (), w1)"
    and "\<not> under_file w1 dir" and "\<not> isfile w1 (rstrip_sep dir)"
proof -
  from s have ne: "basename n \<noteq> []" by simp
  note pj = path_join_basename[OF ne basename_no_sep, of dir, folded p_def]
  have files_free: "\<not> isfile w q" if "q \<in> set (ancestors p)" for q
    using that pj(4) u r by (auto simp: under_file_def)
  then have up: "\<not> under_file (w\<lparr>stdout := stdout w @ [Downloading n p]\<rparr>) p"
    by (simp add: under_file_def isfile_def)
  have "open_wb env p (w\<lparr>stdout := stdout w @ [Downloading n p]\<rparr>) =
      (Inr (), w\<lparr>stdout := stdout w @ [Downloading n p], files := AList.update p [] (files w)\<rparr>)"
    using nf pj(1,2) s up by (simp add: open_wb_def)
  then show "download_one env dir n w = (Inr (), w1)"
    using nf b unfolding download_one_def Let_def p_def[symmetric] w1_def
    by (simp add: io_bind_def print_def download_blob_def write_file_def)
  have other: "isfile w1 q \<longleftrightarrow> isfile w q" if "length q \<le> length dir" for q
    using that pj(3) by (auto simp: w1_def isfile_def update_conv')
  show "\<not> under_file w1 dir"
  proof
    assume "under_file w1 dir"
    then obtain q where q: "q \<in> set (ancestors dir)" "isfile w1 q"
      by (auto simp: under_file_def)
    from ancestors_length[OF q(1)] have "length q \<le> length dir" by simp
    from other[OF this] q u show False by (auto simp: under_file_def)
  qed
  show "\<not> isfile w1 (rstrip_sep dir)"
    using r other[OF rstrip_sep_length] by simp
qed

lemma download_loop:
  assumes nf: "\<forall>c. \<not> fails env c"
  shows "\<forall>(n, d) \<in> set ps. map_of (blobs w) n = Some d \<and> basename n \<notin> {[], ''.'', ''..''} \<Longrightarrow>
    \<not> under_file w dir \<Longrightarrow> \<not> isfile w (rstrip_sep dir) \<Longrightarrow>
    for_each (download_one env dir) (map fst ps) w =
      (Inr (), w\<lparr>files := foldl (\<lambda>fs (n, d). AList.update (path_join dir (basename n)) d fs) (files w) ps,
                  stdout := stdout w @ map (\<lambda>n. Downloading n (path_join dir (basename n))) (map fst ps)\<rparr>)"
proof (induction ps arbitrary: w)
  case Nil then show ?case by (simp add: io_defs)
next
  case (Cons p ps)
  obtain n d where p: "p = (n, d)" by (cases p)
  let ?path = "path_join dir (basename n)"
  let ?w1 = "w\<lparr>stdout := stdout w @ [Downloading n ?path], files := AList.update ?path d (files w)\<rparr>"
  from Cons.prems(1) p have b: "map_of (blobs w) n = Some d" and s: "basename n \<notin> {[], ''.'', ''..''}"
    by simp_all
  note one = download_one_result[OF nf b s Cons.prems(2,3)]
  have "for_each (download_one env dir) (map fst (p # ps)) w = for_each (download_one env dir) (map fst ps) ?w1"
    using p one(1) by (simp add: io_bind_def)
  also have "\<dots> = (Inr (), ?w1\<lparr>files := foldl (\<lambda>fs (n, d). AList.update (path_join dir (basename n)) d fs) (files ?w1) ps,
                  stdout := stdout ?w1 @ map (\<lambda>n. Downloading n (path_join dir (basename n))) (map fst ps)\<rparr>)"
    using Cons.prems(1) one(2,3) by (intro Cons.IH) simp_all
  finally show ?case using p by simp
qed

text \<open>
  C8, as the claim has it, fails on a container that holds the marker of the target folder
  itself. The blob \<open>tree-pictures/\<close> has the prefix and an empty base name, so the step
  opens \<open>out/\<close> for writing, which raises; the blob \<open>tree-pictures/p.jpg\<close>, listed after
  it, has the prefix too and is not retrieved.
\<close>

theorem download_tree_media_stops_at_marker_counterexample:
  "(\<forall>c. \<not> fails example_env c) \<and> distinct (map fst (blobs marker_world))
   \<and> in_tree_folder ''tree-pictures/p.jpg''
   \<and> map_of (blobs marker_world) ''tree-pictures/p.jpg'' = Some [2]
   \<and> fst (download_tree_media example_env ''out'' marker_world) = Inl (IsADirectory ''out/'')
   \<and> files (snd (download_tree_media example_env ''out'' marker_world)) = []"
  by (simp add: example_defs io_defs store_defs fs_defs path_defs script_defs Let_def)

text \<open>
  C8, amended. Take a run in which no external call raises, the names of the container are
  distinct, the name of the destination directory is not empty, no regular file lies at that
  name or on the way to it, and every blob with the prefix has a base name that can name a
  file: not empty, not \<open>.\<close> and not \<open>..\<close>. Then the download step completes; the
  destination directory exists afterwards; and the files written are, in listing order,
  those of the blobs whose names have the prefix, each under the directory and its base
  name, with the blob's bytes. No other blob is read and no other file is written.
\<close>

theorem download_tree_media_retrieves_tree_folder:
  assumes "\<forall>c. \<not> fails env c" and "distinct (map fst (blobs w))"
    and "local_dir \<noteq> []" and "\<not> isfile w (rstrip_sep local_dir)" and "\<not> under_file w local_dir"
    and "\<forall>name \<in> fst ` set (blobs w). in_tree_folder name \<longrightarrow> basename name \<notin> {[], ''.'', ''..''}"
  shows "download_tree_media env local_dir w =
    (Inr (), w\<lparr>dirs := List.insert local_dir (dirs w),
                files := foldl (\<lambda>fs (name, data).
                                  AList.update (path_join local_dir (basename name)) data fs)
                           (files w) (filter (\<lambda>(name, data). in_tree_folder name) (blobs w)),
                stdout := stdout w
                  @ [FoundFiles (length (filter (\<lambda>(name, data). in_tree_folder name) (blobs w)))]
                  @ map (\<lambda>(name, data). Downloading name (path_join local_dir (basename name)))
                      (filter (\<lambda>(name, data). in_tree_folder name) (blobs w))
                  @ [DownloadComplete]\<rparr>)"
proof -
  let ?ps = "filter (\<lambda>(name, data). in_tree_folder name) (blobs w)"
  let ?w1 = "w\<lparr>dirs := List.insert local_dir (dirs w),
                stdout := stdout w @ [FoundFiles (length ?ps)]\<rparr>"
  have names: "filter in_tree_folder (map fst (blobs w)) = map fst ?ps"
    by (simp add: filter_map comp_def case_prod_unfold)
  have "\<forall>(n, d) \<in> set ?ps. map_of (blobs ?w1) n = Some d \<and> basename n \<notin> {[], ''.'', ''..''}"
    using assms(2,6) by force
  moreover have "\<not> under_file ?w1 local_dir" "\<not> isfile ?w1 (rstrip_sep local_dir)"
    using assms(4,5) by (simp_all add: under_file_def isfile_def)
  ultimately have loop: "for_each (download_one env local_dir) (map fst ?ps) ?w1 =
      (Inr (), ?w1\<lparr>files := foldl (\<lambda>fs (n, d). AList.update (path_join local_dir (basename n)) d fs) (files ?w1) ?ps,
                  stdout := stdout ?w1 @ map (\<lambda>n. Downloading n (path_join local_dir (basename n))) (map fst ?ps)\<rparr>)"
    by (rule download_loop[OF assms(1)])
  have mk: "makedirs env local_dir w = (Inr (), w\<lparr>dirs := List.insert local_dir (dirs w)\<rparr>)"
    using assms(1,3,4,5) by (simp add: makedirs_def)
  show ?thesis
    using assms(1) mk loop names
    by (simp add: download_tree_media_def list_blobs_def io_defs Let_def comp_def
        case_prod_unfold)
qed


theorem download_tree_media_retrieves_tree_folder_witness:
  "(\<forall>c. \<not> fails example_env c)
   \<and> distinct (map fst (blobs example_world))
   \<and> ''out'' \<noteq> [] \<and> \<not> isfile example_world (rstrip_sep ''out'')
   \<and> \<not> under_file example_world ''out''
   \<and> basename ''tree-pictures/old.jpg'' = ''old.jpg''
   \<and> fst (download_tree_media example_env ''out'' example_world) = Inr ()
   \<and> dirs (snd (download_tree_media example_env ''out'' example_world)) = [''out'', ''photos'']
   \<and> files (snd (download_tree_media example_env ''out'' example_world)) =
        [(''photos/a.jpg'', [7]), (''photos/clip.MP4'', [8]), (''out/old.jpg'', [9])]"
proof -
  have h1: "\<forall>c. \<not> fails example_env c"
    and h2: "distinct (map fst (blobs example_world))"
    and h3: "''out'' \<noteq> []"
    and h4: "\<not> isfile example_world (rstrip_sep ''out'')"
    and h5: "\<not> under_file example_world ''out''"
    by (simp_all add: example_defs fs_defs)
  have b: "basename ''tree-pictures/old.jpg'' = ''old.jpg''"
    by (simp add: basename_def)
  have h6: "\<forall>name \<in> fst ` set (blobs example_world).
              in_tree_folder name \<longrightarrow> basename name \<notin> {[], ''.'', ''..''}"
    by (simp add: example_defs in_tree_folder_def TREE_FOLDER_def basename_def)
  have f: "filter (\<lambda>(name, data). in_tree_folder name) (blobs example_world)
             = [(''tree-pictures/old.jpg'', [9])]"
    by (simp add: example_defs in_tree_folder_def TREE_FOLDER_def)
  have p: "path_join ''out'' ''old.jpg'' = ''out/old.jpg''"
    by (simp add: path_join_def suffix_to_prefix)
  have w: "dirs example_world = [''photos'']"
    "files example_world = [(''photos/a.jpg'', [7]), (''photos/clip.MP4'', [8])]"
    by (simp_all add: example_defs)
  from download_tree_media_retrieves_tree_folder [OF h1 h2 h3 h4 h5 h6] h1 h2 h3 h4 h5 b
  show ?thesis unfolding f by (simp add: p w)
qed

section \<open>The analyze-and-move step\<close>

lemma analyze_image_file_reads:
  assumes "\<not> fails env (OpenRead tp)" and "map_of (files w) tp = Some data"
  shows "\<exists>out. analyze_image_file env tp kw w =
           (Inr (case vision env data of None \<Rightarrow> [] | Some a \<Rightarrow> map lower (tag_names a)),
            w\<lparr>stdout := stdout w @ out\<rparr>)"
proof (cases "vision env data")
  case None
  with assms show ?thesis
    by (intro exI[of _ "[AnalyzingLocalImage tp, ErrorAnalyzingLocalImage tp VisionError]"])
       (simp add: analyze_image_file_def analyze_image_file_try_def analyze_image_in_stream_def
        read_file_def io_defs)
next
  case (Some a)
  let ?found = "if lower kw \<in> set (map lower (tag_names a)) then FoundInTags kw
      else if object_properties a \<noteq> [] \<and> lower kw \<in> set (map lower (object_properties a))
      then FoundInObjects kw
      else if \<exists>caption \<in> set (map lower (caption_texts a)). sublist (lower kw) caption
      then FoundInDescription kw else DidNotFind kw"
  from Some assms show ?thesis
    by (intro exI[of _ "[AnalyzingLocalImage tp, ?found]"])
       (simp add: analyze_image_file_def analyze_image_file_try_def analyze_image_in_stream_def
        read_file_def io_defs Let_def)
qed

lemma keyword_loop_result:
  assumes "\<not> fails env (OpenRead tp)"
    and "\<not> fails env (StartCopy (TREE_FOLDER @ basename b) (container_url env @ b))"
    and tags: "tags = (case vision env data of None \<Rightarrow> [] | Some a \<Rightarrow> map lower (tag_names a))"
    and m: "m \<longleftrightarrow> tags \<noteq> [] \<and> (\<exists>tag \<in> set tags. \<exists>kw \<in> set kws. sublist kw (lower tag))"
  shows "map_of (files w) tp = Some data \<Longrightarrow> map_of (blobs w) b = Some bdata \<Longrightarrow>
    \<exists>out. keyword_loop env kws b tp ks w =
      (Inr (ks \<noteq> [] \<and> m),
       w\<lparr>blobs := (if ks \<noteq> [] \<and> m then AList.update (TREE_FOLDER @ basename b) bdata (blobs w)
                   else blobs w),
         stdout := stdout w @ out\<rparr>)"
proof (induction ks arbitrary: w)
  case Nil
  show ?case by (intro exI[of _ "[]"]) (simp add: io_defs)
next
  case (Cons k ks)
  from analyze_image_file_reads[OF assms(1) Cons.prems(1), of k]
  obtain out1 where a: "analyze_image_file env tp k w = (Inr tags, w\<lparr>stdout := stdout w @ out1\<rparr>)"
    unfolding tags by blast
  let ?w1 = "w\<lparr>stdout := stdout w @ out1\<rparr>"
  show ?case
  proof (cases m)
    case True
    have "map_of (blobs ?w1) b = Some bdata" using Cons.prems by simp
    from move_blob_result[OF this assms(2)] a True m
    show ?thesis
      by (intro exI[of _ "out1 @ [Moved b (TREE_FOLDER @ basename b)]"]) (simp add: io_defs)
  next
    case False
    have "map_of (files ?w1) tp = Some data" "map_of (blobs ?w1) b = Some bdata"
      using Cons.prems by simp_all
    from Cons.IH[OF this] obtain out2 where
      "keyword_loop env kws b tp ks ?w1 = (Inr (ks \<noteq> [] \<and> m),
         ?w1\<lparr>blobs := (if ks \<noteq> [] \<and> m then AList.update (TREE_FOLDER @ basename b) bdata (blobs ?w1)
                   else blobs ?w1), stdout := stdout ?w1 @ out2\<rparr>)" by blast
    with a False m show ?thesis
      by (intro exI[of _ "out1 @ out2"]) (auto simp add: io_defs)
  qed
qed


lemma analyze_image_file_fails:
  assumes "map_of (files w) tp = Some data"
    and "fails env (OpenRead tp) \<or> vision env data = None"
  shows "analyze_image_file env tp k w =
    (Inr [], w\<lparr>stdout := stdout w @ [AnalyzingLocalImage tp,
        ErrorAnalyzingLocalImage tp
          (if fails env (OpenRead tp) then ServiceError (OpenRead tp) else VisionError)]\<rparr>)"
  using assms
  by (auto simp add: analyze_image_file_def analyze_image_file_try_def analyze_image_in_stream_def
      read_file_def io_defs)

lemma keyword_loop_classification_fails:
  assumes "fails env (OpenRead tp) \<or> vision env data = None"
  shows "map_of (files w) tp = Some data \<Longrightarrow>
    keyword_loop env kws b tp ks w =
      (Inr False, w\<lparr>stdout := stdout w @ concat (map (\<lambda>k. [AnalyzingLocalImage tp,
          ErrorAnalyzingLocalImage tp
            (if fails env (OpenRead tp) then ServiceError (OpenRead tp) else VisionError)]) ks)\<rparr>)"
proof (induction ks arbitrary: w)
  case Nil then show ?case by (simp add: io_defs)
next
  case (Cons k ks)
  let ?w1 = "w\<lparr>stdout := stdout w @ [AnalyzingLocalImage tp, ErrorAnalyzingLocalImage tp
     (if fails env (OpenRead tp) then ServiceError (OpenRead tp) else VisionError)]\<rparr>"
  have a: "analyze_image_file env tp k w = (Inr [], ?w1)"
    by (rule analyze_image_file_fails[OF Cons.prems assms])
  have "map_of (files ?w1) tp = Some data" using Cons.prems by simp
  from Cons.IH[OF this] a show ?case by (simp add: io_defs)
qed

lemma keyword_loop_copy_fails:
  assumes "\<not> fails env (OpenRead tp)" and "map_of (files w) tp = Some data"
    and "vision env data = Some a"
    and "\<exists>tag \<in> set (map lower (tag_names a)). \<exists>kw \<in> set kws. sublist kw (lower tag)"
    and "fails env (StartCopy (TREE_FOLDER @ basename b) (container_url env @ b))"
  shows "\<exists>out. keyword_loop env kws b tp (k # ks) w =
      (Inl (ServiceError (StartCopy (TREE_FOLDER @ basename b) (container_url env @ b))),
       w\<lparr>stdout := stdout w @ out\<rparr>)"
proof -
  from analyze_image_file_reads[OF assms(1,2), of k] assms(3)
  obtain out where a: "analyze_image_file env tp k w =
      (Inr (map lower (tag_names a)), w\<lparr>stdout := stdout w @ out\<rparr>)" by auto
  have m: "move_blob_to_tree_folder env b w' =
      (Inl (ServiceError (StartCopy (TREE_FOLDER @ basename b) (container_url env @ b))), w')" for w'
    using assms(5) by (simp add: move_blob_to_tree_folder_def start_copy_from_url_def io_bind_def Let_def)
  from assms(4) have "map lower (tag_names a) \<noteq> []" by auto
  with a m assms(4) show ?thesis
    by (intro exI[of _ out]) (simp add: io_bind_def)
qed

lemma analyze_one_unfold:
  assumes "\<not> is_video b" and "\<not> fails env (OpenWrite tp)" and "\<not> fails env (DownloadBlob b)"
    and "map_of (blobs w) b = Some data" and tp: "tp = ''temp_'' @ basename b"
  shows "analyze_one env kws b w =
      io_bind (keyword_loop env kws b tp kws) (\<lambda>found.
        io_bind (if \<not> found then print (NoTargetKeywords b) else io_return ()) (\<lambda>_.
        remove_file env tp)) (w\<lparr>files := AList.update tp data (files w)\<rparr>)"
proof -
  have "open_wb env tp w = (Inr (), w\<lparr>files := AList.update tp [] (files w)\<rparr>)"
    unfolding tp using assms(2) by (intro temp_path_opens) (simp add: tp)
  then show ?thesis
    unfolding analyze_one_def Let_def tp[symmetric]
    using assms(1,3,4) by (simp add: download_blob_def write_file_def io_bind_def)
qed

lemma analyze_one_result:
  assumes nf: "\<forall>c. \<not> fails env c" and nv: "\<not> is_video b"
    and b: "map_of (blobs w) b = Some data"
  shows "\<exists>out. analyze_one env kws b w =
      (Inr (), w\<lparr>blobs := (if kws \<noteq> [] \<and> (\<exists>tag \<in> set (case vision env data of None \<Rightarrow> []
                                                           | Some a \<Rightarrow> map lower (tag_names a)).
                                 \<exists>kw \<in> set kws. sublist kw (lower tag))
                   then AList.update (TREE_FOLDER @ basename b) data (blobs w) else blobs w),
         files := AList.delete (''temp_'' @ basename b) (files w),
         stdout := stdout w @ out\<rparr>)"
proof -
  define tp where "tp = ''temp_'' @ basename b"
  define tags where "tags = (case vision env data of None \<Rightarrow> [] | Some a \<Rightarrow> map lower (tag_names a))"
  define m where "m \<longleftrightarrow> tags \<noteq> [] \<and> (\<exists>tag \<in> set tags. \<exists>kw \<in> set kws. sublist kw (lower tag))"
  define dest where "dest = TREE_FOLDER @ basename b"
  let ?w1 = "w\<lparr>files := AList.update tp data (files w)\<rparr>"
  have f1: "map_of (files ?w1) tp = Some data" and b1: "map_of (blobs ?w1) b = Some data"
    using b by (simp_all add: update_conv')
  from nf have "\<not> fails env (OpenRead tp)"
    and "\<not> fails env (StartCopy (TREE_FOLDER @ basename b) (container_url env @ b))" by simp_all
  from keyword_loop_result[OF this tags_def m_def f1 b1, of kws]
  obtain out where k: "keyword_loop env kws b tp kws ?w1 =
      (Inr (kws \<noteq> [] \<and> m),
       ?w1\<lparr>blobs := (if kws \<noteq> [] \<and> m then AList.update dest data (blobs ?w1) else blobs ?w1),
         stdout := stdout ?w1 @ out\<rparr>)"
    unfolding dest_def by blast
  from nf have "\<not> fails env (OpenWrite tp)" "\<not> fails env (DownloadBlob b)" by simp_all
  note unfold = analyze_one_unfold[OF nv this b tp_def, of kws]
  have m_iff: "(kws \<noteq> [] \<and> m) \<longleftrightarrow> (kws \<noteq> [] \<and> (\<exists>tag \<in> set tags. \<exists>kw \<in> set kws. sublist kw (lower tag)))"
    unfolding m_def by auto
  have "\<exists>out. analyze_one env kws b w =
      (Inr (), w\<lparr>blobs := (if kws \<noteq> [] \<and> m then AList.update dest data (blobs w) else blobs w),
         files := AList.delete tp (files w),
         stdout := stdout w @ out\<rparr>)"
  proof (cases "kws \<noteq> [] \<and> m")
    case True
    with k nf show ?thesis unfolding unfold
      by (intro exI[of _ out])
         (simp add: io_bind_def io_return_def remove_file_def update_conv' delete_update_same)
  next
    case False
    with k nf show ?thesis unfolding unfold
      by (intro exI[of _ "out @ [NoTargetKeywords b]"])
         (auto simp add: io_bind_def print_def remove_file_def update_conv' delete_update_same)
  qed
  then show ?thesis unfolding m_iff unfolding tags_def tp_def dest_def .
qed

lemma analyze_loop:
  assumes nf: "\<forall>c. \<not> fails env c"
  shows "\<forall>b \<in> set bs. \<not> in_tree_folder b \<and> map_of (blobs w) b \<noteq> None \<Longrightarrow>
    \<exists>w'. for_each (analyze_one env kws) bs w = (Inr (), w')
      \<and> (\<forall>p. map_of (files w') p =
               (if p \<in> (\<lambda>b. ''temp_'' @ basename b) ` {b \<in> set bs. \<not> is_video b} then None
                else map_of (files w) p))
      \<and> (\<forall>n. \<not> in_tree_folder n \<longrightarrow> map_of (blobs w') n = map_of (blobs w) n)"
proof (induction bs arbitrary: w)
  case Nil
  then show ?case by (simp add: io_return_def)
next
  case (Cons b bs)
  have "\<exists>w1. analyze_one env kws b w = (Inr (), w1)
      \<and> (\<forall>p. map_of (files w1) p =
             (if \<not> is_video b \<and> p = ''temp_'' @ basename b then None else map_of (files w) p))
      \<and> (\<forall>n. \<not> in_tree_folder n \<longrightarrow> map_of (blobs w1) n = map_of (blobs w) n)"
  proof (cases "is_video b")
    case True
    then show ?thesis by (simp add: analyze_one_def print_def)
  next
    case False
    from Cons.prems obtain data where "map_of (blobs w) b = Some data" by auto
    from analyze_one_result[OF nf False this, of kws] obtain w1 where
      "analyze_one env kws b w = (Inr (), w1)"
      "files w1 = AList.delete (''temp_'' @ basename b) (files w)"
      "blobs w1 = blobs w \<or> blobs w1 = AList.update (TREE_FOLDER @ basename b) data (blobs w)"
      by (auto split: if_splits)
    moreover have "n \<noteq> TREE_FOLDER @ basename b" if "\<not> in_tree_folder n" for n
      using that in_tree_folder_dest by metis
    ultimately show ?thesis using False
      by (auto simp add: delete_conv' update_conv')
  qed
  then obtain w1 where a: "analyze_one env kws b w = (Inr (), w1)"
    and f1: "\<forall>p. map_of (files w1) p =
             (if \<not> is_video b \<and> p = ''temp_'' @ basename b then None else map_of (files w) p)"
    and b1: "\<forall>n. \<not> in_tree_folder n \<longrightarrow> map_of (blobs w1) n = map_of (blobs w) n"
    by blast
  have "\<forall>b \<in> set bs. \<not> in_tree_folder b \<and> map_of (blobs w1) b \<noteq> None"
    using Cons.prems b1 by simp
  from Cons.IH[OF this] obtain w' where r: "for_each (analyze_one env kws) bs w1 = (Inr (), w')"
    and f2: "\<forall>p. map_of (files w') p =
               (if p \<in> (\<lambda>b. ''temp_'' @ basename b) ` {b \<in> set bs. \<not> is_video b} then None
                else map_of (files w1) p)"
    and b2: "\<forall>n. \<not> in_tree_folder n \<longrightarrow> map_of (blobs w') n = map_of (blobs w1) n"
    by blast
  have "for_each (analyze_one env kws) (b # bs) w = (Inr (), w')"
    using a r by (simp add: io_bind_def)
  moreover have "\<forall>p. map_of (files w') p =
               (if p \<in> (\<lambda>b. ''temp_'' @ basename b) ` {x \<in> set (b # bs). \<not> is_video x} then None
                else map_of (files w) p)"
    using f1 f2 by auto
  moreover have "\<forall>n. \<not> in_tree_folder n \<longrightarrow> map_of (blobs w') n = map_of (blobs w) n"
    using b1 b2 by simp
  ultimately show ?case by blast
qed


lemma classification_failure_skips:
  assumes "\<not> is_video b" and "map_of (blobs w) b = Some data"
    and "\<not> fails env (OpenWrite (''temp_'' @ basename b))" and "\<not> fails env (DownloadBlob b)"
    and "\<not> fails env (Remove (''temp_'' @ basename b))"
    and "fails env (OpenRead (''temp_'' @ basename b)) \<or> vision env data = None"
  shows "for_each (analyze_one env kws) (b # bs) w =
     for_each (analyze_one env kws) bs
       (w\<lparr>files := AList.delete (''temp_'' @ basename b) (files w),
          stdout := stdout w
            @ concat (map (\<lambda>k. [AnalyzingLocalImage (''temp_'' @ basename b),
                 ErrorAnalyzingLocalImage (''temp_'' @ basename b)
                   (if fails env (OpenRead (''temp_'' @ basename b))
                    then ServiceError (OpenRead (''temp_'' @ basename b)) else VisionError)]) kws)
            @ [NoTargetKeywords b]\<rparr>)"
proof -
  define tp where "tp = ''temp_'' @ basename b"
  let ?w1 = "w\<lparr>files := AList.update tp data (files w)\<rparr>"
  have f1: "map_of (files ?w1) tp = Some data" by (simp add: update_conv')
  note k = keyword_loop_classification_fails[OF assms(6)[folded tp_def] f1, of kws b kws]
  note unfold = analyze_one_unfold[OF assms(1) assms(3)[folded tp_def] assms(4) assms(2) tp_def, of kws]
  have "analyze_one env kws b w =
     (Inr (), w\<lparr>files := AList.delete tp (files w),
          stdout := stdout w
            @ concat (map (\<lambda>k. [AnalyzingLocalImage tp, ErrorAnalyzingLocalImage tp
                 (if fails env (OpenRead tp) then ServiceError (OpenRead tp) else VisionError)]) kws)
            @ [NoTargetKeywords b]\<rparr>)"
    unfolding unfold using k assms(5)[folded tp_def]
    by (simp add: io_bind_def print_def remove_file_def update_conv' delete_update_same)
  then show ?thesis unfolding tp_def by (simp add: io_bind_def)
qed

lemma upload_failure_stops:
  assumes "isfile w (path_join local_dir n)" and "\<not> is_video n"
    and "\<not> fails env (OpenRead (path_join local_dir n))" and "fails env (UploadBlob n)"
  shows "for_each (upload_one env local_dir) (n # ns) w =
     (Inl (ServiceError (UploadBlob n)), w\<lparr>stdout := stdout w @ [Uploading n]\<rparr>)"
  using assms
  by (auto simp add: upload_one_def isfile_def read_file_def upload_blob_def io_defs Let_def)

lemma delete_failure_stops:
  assumes "\<not> in_tree_folder n" and "fails env (DeleteBlob n)"
  shows "for_each (clean_one env) (n # ns) w =
     (Inl (ServiceError (DeleteBlob n)), w\<lparr>stdout := stdout w @ [DeletingBlob n]\<rparr>)"
  using assms by (simp add: clean_one_def delete_blob_def io_defs)

lemma analyze_download_failure_stops:
  assumes "\<not> is_video b" and "\<not> fails env (OpenWrite (''temp_'' @ basename b))"
    and "fails env (DownloadBlob b)"
  shows "for_each (analyze_one env kws) (b # bs) w =
     (Inl (ServiceError (DownloadBlob b)),
      w\<lparr>files := AList.update (''temp_'' @ basename b) [] (files w)\<rparr>)"
proof -
  note o = temp_path_opens[OF assms(2), of w]
  have "analyze_one env kws b w = (Inl (ServiceError (DownloadBlob b)),
      w\<lparr>files := AList.update (''temp_'' @ basename b) [] (files w)\<rparr>)"
    unfolding analyze_one_def Let_def using assms(1,3) o
    by (simp add: io_bind_def download_blob_def)
  then show ?thesis by (simp add: io_bind_def)
qed

lemma copy_failure_stops:
  assumes "\<not> is_video b" and "map_of (blobs w) b = Some data"
    and "\<not> fails env (OpenWrite (''temp_'' @ basename b))" and "\<not> fails env (DownloadBlob b)"
    and "\<not> fails env (OpenRead (''temp_'' @ basename b))"
    and "vision env data = Some a" and "kws \<noteq> []"
    and "\<exists>tag \<in> set (map lower (tag_names a)). \<exists>kw \<in> set kws. sublist kw (lower tag)"
    and "fails env (StartCopy (TREE_FOLDER @ basename b) (container_url env @ b))"
  shows "\<exists>out. for_each (analyze_one env kws) (b # bs) w =
     (Inl (ServiceError (StartCopy (TREE_FOLDER @ basename b) (container_url env @ b))),
      w\<lparr>files := AList.update (''temp_'' @ basename b) data (files w),
         stdout := stdout w @ out\<rparr>)"
proof -
  define tp where "tp = ''temp_'' @ basename b"
  let ?w1 = "w\<lparr>files := AList.update tp data (files w)\<rparr>"
  have f1: "map_of (files ?w1) tp = Some data" by (simp add: update_conv')
  from assms(7) obtain k ks where kws: "kws = k # ks" by (cases kws) auto
  from keyword_loop_copy_fails[OF assms(5)[folded tp_def] f1 assms(6,8,9), of k ks]
  obtain out where k: "keyword_loop env kws b tp kws ?w1 =
      (Inl (ServiceError (StartCopy (TREE_FOLDER @ basename b) (container_url env @ b))),
       ?w1\<lparr>stdout := stdout ?w1 @ out\<rparr>)" unfolding kws by blast
  note unfold = analyze_one_unfold[OF assms(1) assms(3)[folded tp_def] assms(4) assms(2) tp_def, of kws]
  have "analyze_one env kws b w =
     (Inl (ServiceError (StartCopy (TREE_FOLDER @ basename b) (container_url env @ b))),
      w\<lparr>files := AList.update tp data (files w), stdout := stdout w @ out\<rparr>)"
    unfolding unfold using k by (simp add: io_bind_def)
  then show ?thesis unfolding tp_def by (intro exI[of _ out]) (simp add: io_bind_def)
qed

lemma download_failure_stops:
  assumes "\<not> fails env (OpenWrite (path_join local_dir (basename n)))"
    and "path_join local_dir (basename n) \<noteq> []"
    and "\<not> under_file w (path_join local_dir (basename n))"
    and "basename (path_join local_dir (basename n)) \<notin> {[], ''.'', ''..''}"
    and "fails env (DownloadBlob n)"
  shows "for_each (download_one env local_dir) (n # ns) w =
     (Inl (ServiceError (DownloadBlob n)),
      w\<lparr>files := AList.update (path_join local_dir (basename n)) [] (files w),
         stdout := stdout w @ [Downloading n (path_join local_dir (basename n))]\<rparr>)"
proof -
  define p where "p = path_join local_dir (basename n)"
  have "\<not> under_file (w\<lparr>stdout := stdout w @ [Downloading n p]\<rparr>) p"
    using assms(3) by (simp add: under_file_def isfile_def p_def)
  then have "download_one env local_dir n w = (Inl (ServiceError (DownloadBlob n)),
      w\<lparr>files := AList.update p [] (files w), stdout := stdout w @ [Downloading n p]\<rparr>)"
    unfolding download_one_def Let_def p_def[symmetric]
    using assms(1,2,4,5)[folded p_def]
    by (simp add: io_bind_def print_def open_wb_def download_blob_def)
  then show ?thesis unfolding p_def by (simp add: io_bind_def)
qed

text \<open>
  C1. The test of the tags takes each keyword as it was given and looks for it in the
  lower-cased tags, so a keyword with a capital letter matches no tag: with the keyword
  \<open>Tree\<close>, the blob \<open>a.jpg\<close>, whose tags are \<open>tree\<close> and \<open>plant\<close>, is not copied into
  the target folder, while with the keyword \<open>tree\<close> it is.
\<close>

theorem analyze_and_move_blobs_keyword_case:
  "fst (analyze_and_move_blobs example_env [''Tree''] example_world) = Inr ()
   \<and> map_of (blobs (snd (analyze_and_move_blobs example_env [''Tree''] example_world)))
        ''tree-pictures/a.jpg'' = None
   \<and> map_of (blobs (snd (analyze_and_move_blobs example_env [''tree''] example_world)))
        ''tree-pictures/a.jpg'' = Some [1]"
  by (simp add: example_defs io_defs store_defs fs_defs path_defs script_defs sublist_code Let_def)

text \<open>
  C2, as the claim has it, fails: the storage calls of the steps are not wrapped. When the
  deletion of \<open>a.jpg\<close> raises, the clean step ends with that exception after one printed
  line, and \<open>b.jpg\<close>, whose deletion would have been accepted, is never reached: the
  container is as it was.
\<close>

theorem clean_blob_storage_stops_at_failure_counterexample:
  "\<not> fails (example_env\<lparr>fails := (\<lambda>c. c = DeleteBlob ''a.jpg'')\<rparr>) (DeleteBlob ''b.jpg'')
   \<and> fst (clean_blob_storage (example_env\<lparr>fails := (\<lambda>c. c = DeleteBlob ''a.jpg'')\<rparr>)
            example_world)
       = Inl (ServiceError (DeleteBlob ''a.jpg''))
   \<and> blobs (snd (clean_blob_storage (example_env\<lparr>fails := (\<lambda>c. c = DeleteBlob ''a.jpg'')\<rparr>)
                   example_world))
       = blobs example_world
   \<and> stdout (snd (clean_blob_storage (example_env\<lparr>fails := (\<lambda>c. c = DeleteBlob ''a.jpg'')\<rparr>)
                    example_world))
       = [DeletingBlob ''a.jpg'']"
  by (simp add: example_defs io_defs store_defs fs_defs path_defs script_defs Let_def)

text \<open>
  C2, amended. Classification is wrapped and nothing else is. When classifying a blob
  fails in the analyze-and-move step (the temporary image cannot be read or the vision call
  raises) and the step's own calls for the blob are accepted, the classifier prints its
  diagnostic at each keyword, the blob is reported as having no target keyword and is not
  copied, its temporary file is removed, and the loop goes on with the next blob from that
  world. When a storage call on an item raises (the upload of a file, the deletion of a
  blob, the download of a blob in the analyze-and-move or in the download step, the copy of
  a matching blob), the loop of the step ends there with that exception: the items after it
  are not processed, and the world is as the call left it.
\<close>

theorem only_classification_is_wrapped:
  "(\<not> is_video b \<and> map_of (blobs w) b = Some data
      \<and> \<not> fails env (OpenWrite (''temp_'' @ basename b)) \<and> \<not> fails env (DownloadBlob b)
      \<and> \<not> fails env (Remove (''temp_'' @ basename b))
      \<and> (fails env (OpenRead (''temp_'' @ basename b)) \<or> vision env data = None)
    \<longrightarrow> for_each (analyze_one env kws) (b # bs) w =
         for_each (analyze_one env kws) bs
           (w\<lparr>files := AList.delete (''temp_'' @ basename b) (files w),
              stdout := stdout w
                @ concat (map (\<lambda>k. [AnalyzingLocalImage (''temp_'' @ basename b),
                     ErrorAnalyzingLocalImage (''temp_'' @ basename b)
                       (if fails env (OpenRead (''temp_'' @ basename b))
                        then ServiceError (OpenRead (''temp_'' @ basename b))
                        else VisionError)]) kws)
                @ [NoTargetKeywords b]\<rparr>))
   \<and> (isfile w (path_join local_dir n) \<and> \<not> is_video n
        \<and> \<not> fails env (OpenRead (path_join local_dir n)) \<and> fails env (UploadBlob n)
      \<longrightarrow> for_each (upload_one env local_dir) (n # ns) w =
           (Inl (ServiceError (UploadBlob n)), w\<lparr>stdout := stdout w @ [Uploading n]\<rparr>))
   \<and> (\<not> in_tree_folder n \<and> fails env (DeleteBlob n)
      \<longrightarrow> for_each (clean_one env) (n # ns) w =
           (Inl (ServiceError (DeleteBlob n)), w\<lparr>stdout := stdout w @ [DeletingBlob n]\<rparr>))
   \<and> (\<not> is_video b \<and> \<not> fails env (OpenWrite (''temp_'' @ basename b))
        \<and> fails env (DownloadBlob b)
      \<longrightarrow> for_each (analyze_one env kws) (b # bs) w =
           (Inl (ServiceError (DownloadBlob b)),
            w\<lparr>files := AList.update (''temp_'' @ basename b) [] (files w)\<rparr>))
   \<and> (\<not> is_video b \<and> map_of (blobs w) b = Some data
        \<and> \<not> fails env (OpenWrite (''temp_'' @ basename b)) \<and> \<not> fails env (DownloadBlob b)
        \<and> \<not> fails env (OpenRead (''temp_'' @ basename b))
        \<and> vision env data = Some a \<and> kws \<noteq> []
        \<and> (\<exists>tag \<in> set (map lower (tag_names a)). \<exists>kw \<in> set kws. sublist kw (lower tag))
        \<and> fails env (StartCopy (TREE_FOLDER @ basename b) (container_url env @ b))
      \<longrightarrow> (\<exists>out. for_each (analyze_one env kws) (b # bs) w =
           (Inl (ServiceError (StartCopy (TREE_FOLDER @ basename b) (container_url env @ b))),
            w\<lparr>files := AList.update (''temp_'' @ basename b) data (files w),
               stdout := stdout w @ out\<rparr>)))
   \<and> (\<not> fails env (OpenWrite (path_join local_dir (basename n)))
        \<and> path_join local_dir (basename n) \<noteq> []
        \<and> \<not> under_file w (path_join local_dir (basename n))
        \<and> basename (path_join local_dir (basename n)) \<notin> {[], ''.'', ''..''}
        \<and> fails env (DownloadBlob n)
      \<longrightarrow> for_each (download_one env local_dir) (n # ns) w =
           (Inl (ServiceError (DownloadBlob n)),
            w\<lparr>files := AList.update (path_join local_dir (basename n)) [] (files w),
               stdout := stdout w @ [Downloading n (path_join local_dir (basename n))]\<rparr>))"
  apply (intro conjI impI)
  subgoal by (elim conjE, rule classification_failure_skips; assumption)
  subgoal by (elim conjE, rule upload_failure_stops; assumption)
  subgoal by (elim conjE, rule delete_failure_stops; assumption)
  subgoal by (elim conjE, rule analyze_download_failure_stops; assumption)
  subgoal by (elim conjE, rule copy_failure_stops; assumption)
  subgoal by (elim conjE, rule download_failure_stops; assumption)
  done

theorem only_classification_is_wrapped_witness:
  "for_each (analyze_one faulty_env [''tree'']) [''c.jpg'', ''m.mp4''] example_world =
     for_each (analyze_one faulty_env [''tree'']) [''m.mp4'']
       (example_world\<lparr>files := AList.delete ''temp_c.jpg'' (files example_world),
          stdout := stdout example_world
            @ [AnalyzingLocalImage ''temp_c.jpg'',
               ErrorAnalyzingLocalImage ''temp_c.jpg'' VisionError,
               NoTargetKeywords ''c.jpg'']\<rparr>)
   \<and> for_each (upload_one faulty_env ''photos'') [''a.jpg'', ''notes''] example_world =
       (Inl (ServiceError (UploadBlob ''a.jpg'')),
        example_world\<lparr>stdout := stdout example_world @ [Uploading ''a.jpg'']\<rparr>)
   \<and> for_each (clean_one faulty_env) [''a.jpg'', ''b.jpg''] example_world =
       (Inl (ServiceError (DeleteBlob ''a.jpg'')),
        example_world\<lparr>stdout := stdout example_world @ [DeletingBlob ''a.jpg'']\<rparr>)
   \<and> for_each (analyze_one faulty_env [''tree'']) [''b.jpg'', ''c.jpg''] example_world =
       (Inl (ServiceError (DownloadBlob ''b.jpg'')),
        example_world\<lparr>files := AList.update ''temp_b.jpg'' [] (files example_world)\<rparr>)
   \<and> (\<exists>out. for_each (analyze_one faulty_env [''tree'']) [''a.jpg'', ''b.jpg''] example_world =
       (Inl (ServiceError (StartCopy ''tree-pictures/a.jpg''
                             ''https://acct.blob.core.windows.net/images/a.jpg'')),
        example_world\<lparr>files := AList.update ''temp_a.jpg'' [1] (files example_world),
           stdout := stdout example_world @ out\<rparr>))
   \<and> for_each (download_one faulty_env ''out'') [''tree-pictures/old.jpg''] example_world =
       (Inl (ServiceError (DownloadBlob ''tree-pictures/old.jpg'')),
        example_world\<lparr>files := AList.update ''out/old.jpg'' [] (files example_world),
           stdout := stdout example_world
             @ [Downloading ''tree-pictures/old.jpg'' ''out/old.jpg'']\<rparr>)"
proof -
  note T = only_classification_is_wrapped
  have tc: "''temp_'' @ basename ''c.jpg'' = ''temp_c.jpg''"
    and tb: "''temp_'' @ basename ''b.jpg'' = ''temp_b.jpg''"
    and ta: "''temp_'' @ basename ''a.jpg'' = ''temp_a.jpg''"
    and da: "TREE_FOLDER @ basename ''a.jpg'' = ''tree-pictures/a.jpg''"
    and po: "path_join ''out'' (basename ''tree-pictures/old.jpg'') = ''out/old.jpg''"
    and pa: "path_join ''photos'' ''a.jpg'' = ''photos/a.jpg''"
    by (simp_all add: path_defs)
  have ua: "container_url faulty_env @ ''a.jpg''
              = ''https://acct.blob.core.windows.net/images/a.jpg''"
    by (simp add: container_url_def example_defs)
  have nv: "\<not> is_video ''a.jpg''" "\<not> is_video ''b.jpg''" "\<not> is_video ''c.jpg''"
    and nt: "\<not> in_tree_folder ''a.jpg''"
    by (simp_all add: path_defs)
  have 1: "for_each (analyze_one faulty_env [''tree'']) (''c.jpg'' # [''m.mp4'']) example_world =
     for_each (analyze_one faulty_env [''tree'']) [''m.mp4'']
       (example_world\<lparr>files := AList.delete ''temp_c.jpg'' (files example_world),
          stdout := stdout example_world
            @ concat (map (\<lambda>k. [AnalyzingLocalImage ''temp_c.jpg'',
                 ErrorAnalyzingLocalImage ''temp_c.jpg''
                   (if fails faulty_env (OpenRead ''temp_c.jpg'')
                    then ServiceError (OpenRead ''temp_c.jpg'') else VisionError)]) [''tree''])
            @ [NoTargetKeywords ''c.jpg'']\<rparr>)"
    using T [where env = faulty_env and w = example_world and b = "''c.jpg''" and data = "[3]"
               and kws = "[''tree'']" and bs = "[''m.mp4'']", THEN conjunct1] nv
    unfolding tc by (simp add: example_defs)
  have 2: "for_each (upload_one faulty_env ''photos'') (''a.jpg'' # [''notes'']) example_world =
       (Inl (ServiceError (UploadBlob ''a.jpg'')),
        example_world\<lparr>stdout := stdout example_world @ [Uploading ''a.jpg'']\<rparr>)"
    using T [where env = faulty_env and w = example_world and local_dir = "''photos''"
               and n = "''a.jpg''" and ns = "[''notes'']",
             THEN conjunct2, THEN conjunct1] nv
    unfolding pa by (simp add: example_defs isfile_def)
  have 3: "for_each (clean_one faulty_env) (''a.jpg'' # [''b.jpg'']) example_world =
       (Inl (ServiceError (DeleteBlob ''a.jpg'')),
        example_world\<lparr>stdout := stdout example_world @ [DeletingBlob ''a.jpg'']\<rparr>)"
    using T [where env = faulty_env and w = example_world and n = "''a.jpg''" and ns = "[''b.jpg'']",
             THEN conjunct2, THEN conjunct2, THEN conjunct1] nt
    by (simp add: example_defs)
  have 4: "for_each (analyze_one faulty_env [''tree'']) (''b.jpg'' # [''c.jpg'']) example_world =
       (Inl (ServiceError (DownloadBlob ''b.jpg'')),
        example_world\<lparr>files := AList.update ''temp_b.jpg'' [] (files example_world)\<rparr>)"
    using T [where env = faulty_env and w = example_world and b = "''b.jpg''"
               and kws = "[''tree'']" and bs = "[''c.jpg'']",
             THEN conjunct2, THEN conjunct2, THEN conjunct2, THEN conjunct1] nv
    unfolding tb by (simp add: example_defs)
  have 5: "\<exists>out. for_each (analyze_one faulty_env [''tree'']) (''a.jpg'' # [''b.jpg'']) example_world =
       (Inl (ServiceError (StartCopy ''tree-pictures/a.jpg''
                             ''https://acct.blob.core.windows.net/images/a.jpg'')),
        example_world\<lparr>files := AList.update ''temp_a.jpg'' [1] (files example_world),
           stdout := stdout example_world @ out\<rparr>)"
    using T [where env = faulty_env and w = example_world and b = "''a.jpg''" and data = "[1]"
               and kws = "[''tree'']" and bs = "[''b.jpg'']"
               and a = "\<lparr>tag_names = [''Tree'', ''Plant''], object_properties = [],
                          caption_texts = []\<rparr>",
             THEN conjunct2, THEN conjunct2, THEN conjunct2, THEN conjunct2, THEN conjunct1] nv
    unfolding ta da ua by (simp add: example_defs lower_def lower_char_def sublist_code)
  have 6: "for_each (download_one faulty_env ''out'') (''tree-pictures/old.jpg'' # []) example_world =
       (Inl (ServiceError (DownloadBlob ''tree-pictures/old.jpg'')),
        example_world\<lparr>files := AList.update ''out/old.jpg'' [] (files example_world),
           stdout := stdout example_world
             @ [Downloading ''tree-pictures/old.jpg'' ''out/old.jpg'']\<rparr>)"
    using T [where env = faulty_env and w = example_world and local_dir = "''out''"
               and n = "''tree-pictures/old.jpg''" and ns = "[]",
             THEN conjunct2, THEN conjunct2, THEN conjunct2, THEN conjunct2, THEN conjunct2]
    unfolding po by (simp add: example_defs fs_defs basename_def)
  from 1 2 3 4 5 6 show ?thesis by (simp add: example_defs)
qed

text \<open>
  C5, as the claim has it, fails: the removal of the temporary file is the last statement
  of the loop body and is not reached when the copy raises. With the copy of \<open>a.jpg\<close>
  refused, the step ends with that exception and \<open>temp_a.jpg\<close> is still there.
\<close>

theorem analyze_and_move_blobs_leaves_temp_counterexample:
  "fst (analyze_and_move_blobs
          (example_env\<lparr>fails := (\<lambda>c. c = StartCopy ''tree-pictures/a.jpg''
                                         ''https://acct.blob.core.windows.net/images/a.jpg'')\<rparr>)
          [''tree''] example_world)
     = Inl (ServiceError (StartCopy ''tree-pictures/a.jpg''
                                    ''https://acct.blob.core.windows.net/images/a.jpg''))
   \<and> map_of (files (snd (analyze_and_move_blobs
          (example_env\<lparr>fails := (\<lambda>c. c = StartCopy ''tree-pictures/a.jpg''
                                         ''https://acct.blob.core.windows.net/images/a.jpg'')\<rparr>)
          [''tree''] example_world))) ''temp_a.jpg'' = Some [1]"
  by (simp add: example_defs io_defs store_defs fs_defs path_defs script_defs sublist_code Let_def)

text \<open>
  C5, amended. When the storage and file calls are accepted, the analyze-and-move step
  completes, whatever the vision service answers or raises, and afterwards no blob outside
  the target folder that is not a video has its temporary file left: match, no match and
  classification error all end with the file removed. The blobs outside the target folder
  are as they were.
\<close>

theorem analyze_and_move_blobs_removes_temp_files:
  assumes "\<forall>c. \<not> fails env c"
  shows "\<exists>w'. analyze_and_move_blobs env keywords w = (Inr (), w')
           \<and> (\<forall>b \<in> fst ` set (blobs w). \<not> in_tree_folder b \<and> \<not> is_video b
                  \<longrightarrow> map_of (files w') (''temp_'' @ basename b) = None)
           \<and> (\<forall>n. \<not> in_tree_folder n \<longrightarrow> map_of (blobs w') n = map_of (blobs w) n)"
proof -
  let ?bs = "filter (\<lambda>name. \<not> in_tree_folder name) (map fst (blobs w))"
  have "\<forall>b \<in> set ?bs. \<not> in_tree_folder b \<and> map_of (blobs w) b \<noteq> None"
    by (auto simp: map_of_eq_None_iff)
  from analyze_loop[OF assms this, of "keywords"] obtain w' where
    r: "for_each (analyze_one env keywords) ?bs w = (Inr (), w')"
    and f: "\<forall>p. map_of (files w') p =
               (if p \<in> (\<lambda>b. ''temp_'' @ basename b) ` {b \<in> set ?bs. \<not> is_video b} then None
                else map_of (files w) p)"
    and b: "\<forall>n. \<not> in_tree_folder n \<longrightarrow> map_of (blobs w') n = map_of (blobs w) n"
    by blast
  have "analyze_and_move_blobs env keywords w = (Inr (), w')"
    using assms r by (simp add: analyze_and_move_blobs_def list_blobs_def io_bind_def)
  moreover have "\<forall>b \<in> fst ` set (blobs w). \<not> in_tree_folder b \<and> \<not> is_video b
                  \<longrightarrow> map_of (files w') (''temp_'' @ basename b) = None"
    using f by auto
  ultimately show ?thesis using b by blast
qed


theorem analyze_and_move_blobs_removes_temp_files_witness:
  "(\<forall>c. \<not> fails example_env c)
   \<and> (\<exists>w'. analyze_and_move_blobs example_env [''tree''] example_world = (Inr (), w')
          \<and> map_of (files w') ''temp_a.jpg'' = None
          \<and> map_of (files w') ''temp_c.jpg'' = None
          \<and> map_of (blobs w') ''b.jpg'' = Some [2])"
proof -
  have h: "\<forall>c. \<not> fails example_env c"
    by (simp add: example_defs)
  from analyze_and_move_blobs_removes_temp_files [OF h, of "[''tree'']" example_world]
  obtain w' where r: "analyze_and_move_blobs example_env [''tree''] example_world = (Inr (), w')"
    and f: "\<forall>b \<in> fst ` set (blobs example_world). \<not> in_tree_folder b \<and> \<not> is_video b
                  \<longrightarrow> map_of (files w') (''temp_'' @ basename b) = None"
    and b: "\<forall>n. \<not> in_tree_folder n \<longrightarrow> map_of (blobs w') n = map_of (blobs example_world) n"
    by blast
  have m: "''a.jpg'' \<in> fst ` set (blobs example_world)" "''c.jpg'' \<in> fst ` set (blobs example_world)"
    "map_of (blobs example_world) ''b.jpg'' = Some [2]"
    by (simp_all add: example_defs)
  have n: "\<not> in_tree_folder ''a.jpg''" "\<not> is_video ''a.jpg''"
    "\<not> in_tree_folder ''c.jpg''" "\<not> is_video ''c.jpg''" "\<not> in_tree_folder ''b.jpg''"
    and t: "''temp_'' @ basename ''a.jpg'' = ''temp_a.jpg''"
      "''temp_'' @ basename ''c.jpg'' = ''temp_c.jpg''"
    by (simp_all add: path_defs)
  from f m(1) n(1,2) have "map_of (files w') (''temp_'' @ basename ''a.jpg'') = None" by blast
  moreover from f m(2) n(3,4) have "map_of (files w') (''temp_'' @ basename ''c.jpg'') = None"
    by blast
  moreover from b n(5) m(3) have "map_of (blobs w') ''b.jpg'' = Some [2]" by simp
  ultimately show ?thesis using h r unfolding t by blast
qed


end
